theory Spec2Isabelle
  imports Main
begin

section \<open>Ticketing backend: sessions, authentication gate and ticket purchase\<close>

text \<open>
  The development embeds the Express/PostgreSQL backend of the ticketing application:
  the services (\<open>EventService\<close>, \<open>SessionService\<close>, \<open>AuthService\<close>, \<open>UserService\<close>),
  the \<open>authenticate\<close> middleware, the controllers that turn thrown errors into HTTP
  status codes, and the routes that chain them.

  Conventions of the embedding.
  \<^item> A table is the list of its rows in table order; \<open>SELECT ... WHERE\<close> is \<open>filter\<close>,
    \<open>UPDATE ... WHERE\<close> maps over the rows, \<open>INSERT\<close> appends, \<open>rows[0]\<close> is the head.
  \<^item> A JavaScript \<open>Error\<close> is its message, a \<open>string\<close>; a function that may throw
    returns \<open>string + 'a\<close> with \<open>Inl\<close> the thrown message.
  \<^item> Numbers that hold counts and ids are \<open>int\<close>; timestamps are milliseconds, \<open>int\<close>;
    a price is an amount of cents, \<open>int\<close>.
  \<^item> A statement that the schema (migrations.ts) refuses throws: the model computes the
    \<open>CHECK\<close> constraints of \<open>events\<close>; the foreign keys, the \<open>CHECK\<close> constraints and the
    length of \<open>title\<close> of \<open>tickets\<close>; \<open>NOT NULL\<close>, \<open>UNIQUE\<close> and \<open>CHECK\<close> of \<open>users\<close>; and the
    number of parameters of a bind message.
  \<^item> A query can also fail for a reason the model does not compute: a lost connection, a
    pool timeout, a refusal that is not listed above (the size of another column, a
    foreign key of \<open>events\<close> or \<open>sessions\<close>, a number outside the range of its column).
    A \<open>fault\<close> names the query of the current request that throws for such a reason,
    counted from 0 in the order the request issues them, with the message of the error;
    \<open>None\<close> is a run in which no query does. A query that throws has had no effect.
  \<^item> Columns that no function of the core reads (\<open>created_at\<close>, \<open>updated_at\<close> and the
    serial ids of tickets and sessions) are left out of the rows.
  \<^item> Field names follow the source; a name used by two tables, or by HOL itself, carries
    the table as a suffix (\<open>id_event\<close>, \<open>title_ticket\<close>), and the fields of a request
    object carry a prefix (\<open>u_total_tickets\<close> of an \<open>UpdateEventDto\<close>). A field that may be
    \<open>undefined\<close> or \<open>NULL\<close> is an \<open>option\<close>.
\<close>

subsection \<open>Strings\<close>

text \<open>\<open>String.prototype.startsWith\<close> and \<open>String.prototype.includes\<close>.\<close>

fun startsWith :: "string \<Rightarrow> string \<Rightarrow> bool" where
  "startsWith s [] = True"
| "startsWith [] (c # cs) = False"
| "startsWith (x # xs) (c # cs) = (x = c \<and> startsWith xs cs)"

fun includes_str :: "string \<Rightarrow> string \<Rightarrow> bool" where
  "includes_str [] t = (t = [])"
| "includes_str (x # xs) t = (startsWith (x # xs) t \<or> includes_str xs t)"

text \<open>Template-literal rendering of an integer: decimal digits, a minus sign when negative.\<close>

fun show_nat :: "nat \<Rightarrow> string" where
  "show_nat n =
     (if n < 10 then [''0123456789'' ! n]
      else show_nat (n div 10) @ [''0123456789'' ! (n mod 10)])"

definition show_int :: "int \<Rightarrow> string" where
  "show_int i = (if i < 0 then CHR ''-'' # show_nat (nat (- i)) else show_nat (nat i))"

subsection \<open>Faults of the database connection\<close>

type_synonym fault = "(nat \<times> string) option"

definition fault_at :: "fault \<Rightarrow> nat \<Rightarrow> string option" where
  "fault_at f n = (case f of None \<Rightarrow> None | Some (k, m) \<Rightarrow> if k = n then Some m else None)"

subsection \<open>Rows and tables\<close>

record user =
  id_user :: int
  email :: string
  password_hash :: string
  first_name :: "string option"
  last_name :: "string option"
  role :: "string option"
  is_active :: bool

record event =
  id_event :: int
  title_event :: string
  description :: "string option"
  venue :: "string option"
  event_date :: int
  total_tickets :: int
  available_tickets :: int
  price :: int
  image_url :: "string option"
  status_event :: string
  created_by :: "int option"

record ticket =
  event_id :: int
  user_id_ticket :: int
  title_ticket :: string
  status_ticket :: string
  ticket_type :: string
  quantity :: int
  purchase_price :: int
  purchase_date :: int

record session =
  user_id :: int
  token_hash :: string
  expires_at :: int
  is_revoked :: bool
  revoked_at :: "int option"
  device_info :: "string option"
  ip_address :: "string option"
  last_used_at :: int

record database =
  users :: "user list"
  users_id_seq :: int
  events :: "event list"
  events_id_seq :: int
  tickets :: "ticket list"
  sessions :: "session list"

text \<open>
  The \<open>CHECK\<close> constraints of the \<open>events\<close> table (migrations.ts): a statement that
  would store a row violating one of them fails as a whole.
\<close>

definition events_check :: "event \<Rightarrow> bool" where
  "events_check e =
     (0 \<le> total_tickets e \<and> 0 \<le> available_tickets e \<and> 0 \<le> price e \<and>
      (status_event e = ''upcoming'' \<or> status_event e = ''live'' \<or>
       status_event e = ''completed'' \<or> status_event e = ''cancelled''))"

definition check_violation :: string where
  "check_violation = ''new row for relation \"events\" violates check constraint''"

text \<open>
  \<open>UPDATE events SET ... WHERE ...\<close>: the rows selected by \<open>w\<close> are replaced by their
  image under \<open>s\<close>; the result is the updated table with the rows of \<open>RETURNING *\<close>.
\<close>

definition update_events ::
  "(event \<Rightarrow> bool) \<Rightarrow> (event \<Rightarrow> event) \<Rightarrow> event list \<Rightarrow> string + (event list \<times> event list)" where
  "update_events w s rows =
     (let changed = map s (filter w rows) in
      if list_all events_check changed
      then Inr (map (\<lambda>e. if w e then s e else e) rows, changed)
      else Inl check_violation)"

subsection \<open>A pooled client and its transaction\<close>

text \<open>
  \<open>pool.connect()\<close> hands out a client. Statements between \<open>BEGIN\<close> and \<open>COMMIT\<close> work on
  the transaction's own copy of the tables; \<open>COMMIT\<close> publishes the copy, \<open>ROLLBACK\<close>
  drops it. Outside a transaction each statement commits by itself. What every other
  connection can observe is \<open>committed\<close>.
\<close>

record client =
  committed :: database
  txn :: "database option"

definition connect :: "database \<Rightarrow> client" where
  "connect db = \<lparr>committed = db, txn = None\<rparr>"

definition view :: "client \<Rightarrow> database" where
  "view c = (case txn c of Some w \<Rightarrow> w | None \<Rightarrow> committed c)"

definition store :: "database \<Rightarrow> client \<Rightarrow> client" where
  "store d c = (case txn c of Some w \<Rightarrow> c\<lparr>txn := Some d\<rparr> | None \<Rightarrow> c\<lparr>committed := d\<rparr>)"

definition BEGIN :: "client \<Rightarrow> client" where
  "BEGIN c = (case txn c of Some w \<Rightarrow> c | None \<Rightarrow> c\<lparr>txn := Some (committed c)\<rparr>)"

definition COMMIT :: "client \<Rightarrow> client" where
  "COMMIT c = (case txn c of Some w \<Rightarrow> \<lparr>committed = w, txn = None\<rparr> | None \<Rightarrow> c)"

definition ROLLBACK :: "client \<Rightarrow> client" where
  "ROLLBACK c = c\<lparr>txn := None\<rparr>"

text \<open>
  \<open>client.release()\<close> returns the connection to the pool and sends nothing to the server:
  the connection goes back as it is, with its transaction if one is still open.
\<close>

definition release :: "client \<Rightarrow> client" where
  "release c = c"

subsection \<open>EventService\<close>

record CreateEventDto =
  c_title :: string
  c_description :: "string option"
  c_venue :: "string option"
  c_event_date :: int
  c_total_tickets :: int
  c_price :: int
  c_image_url :: "string option"
  c_status :: "string option"

record UpdateEventDto =
  u_title :: "string option"
  u_description :: "string option"
  u_venue :: "string option"
  u_event_date :: "int option"
  u_total_tickets :: "int option"
  u_available_tickets :: "int option"
  u_price :: "int option"
  u_image_url :: "string option"
  u_status :: "string option"

text \<open>\<open>a || b\<close> on an optional string: the empty string is falsy.\<close>

definition or_else :: "string option \<Rightarrow> string \<Rightarrow> string" where
  "or_else a b = (case a of None \<Rightarrow> b | Some s \<Rightarrow> if s = [] then b else s)"

definition or_null :: "string option \<Rightarrow> string option" where
  "or_null a = (case a of None \<Rightarrow> None | Some s \<Rightarrow> if s = [] then None else Some s)"

text \<open>
  \<open>createEvent\<close>: one \<open>INSERT\<close> whose fifth value fills both \<open>total_tickets\<close> and
  \<open>available_tickets\<close>. \<open>createdBy || null\<close> turns the id 0 into \<open>NULL\<close>.
\<close>

definition createEvent ::
  "fault \<Rightarrow> database \<Rightarrow> CreateEventDto \<Rightarrow> int option \<Rightarrow> (string + event) \<times> database" where
  "createEvent f db data createdBy =
     (case fault_at f 0 of
        Some m \<Rightarrow> (Inl m, db)
      | None \<Rightarrow>
          let row = \<lparr>id_event = events_id_seq db + 1,
                     title_event = c_title data,
                     description = or_null (c_description data),
                     venue = or_null (c_venue data),
                     event_date = c_event_date data,
                     total_tickets = c_total_tickets data,
                     available_tickets = c_total_tickets data,
                     price = c_price data,
                     image_url = or_null (c_image_url data),
                     status_event = or_else (c_status data) ''upcoming'',
                     created_by = (case createdBy of None \<Rightarrow> None
                                   | Some u \<Rightarrow> if u = 0 then None else Some u)\<rparr>
          in if events_check row
             then (Inr row, db\<lparr>events := events db @ [row], events_id_seq := events_id_seq db + 1\<rparr>)
             else (Inl check_violation, db\<lparr>events_id_seq := events_id_seq db + 1\<rparr>))"

definition select_event :: "database \<Rightarrow> int \<Rightarrow> event list" where
  "select_event db i = filter (\<lambda>e. id_event e = i) (events db)"

definition getEventById :: "database \<Rightarrow> int \<Rightarrow> event option" where
  "getEventById db i = (case select_event db i of [] \<Rightarrow> None | e # _ \<Rightarrow> Some e)"

text \<open>
  \<open>updateEvent\<close> collects the \<open>SET\<close> clauses in the order of the source. The statement
  is rejected when it assigns one column twice, which happens when the caller gives both
  \<open>total_tickets\<close> and \<open>available_tickets\<close>.
\<close>

datatype assignment =
    SetTitle string
  | SetDescription string
  | SetVenue string
  | SetEventDate int
  | SetTotal int
  | SetAvailable int
  | SetPrice int
  | SetImageUrl string
  | SetStatus string

fun column :: "assignment \<Rightarrow> string" where
  "column (SetTitle v) = ''title''"
| "column (SetDescription v) = ''description''"
| "column (SetVenue v) = ''venue''"
| "column (SetEventDate v) = ''event_date''"
| "column (SetTotal v) = ''total_tickets''"
| "column (SetAvailable v) = ''available_tickets''"
| "column (SetPrice v) = ''price''"
| "column (SetImageUrl v) = ''image_url''"
| "column (SetStatus v) = ''status''"

fun assign :: "assignment \<Rightarrow> event \<Rightarrow> event" where
  "assign (SetTitle v) e = e\<lparr>title_event := v\<rparr>"
| "assign (SetDescription v) e = e\<lparr>description := Some v\<rparr>"
| "assign (SetVenue v) e = e\<lparr>venue := Some v\<rparr>"
| "assign (SetEventDate v) e = e\<lparr>event_date := v\<rparr>"
| "assign (SetTotal v) e = e\<lparr>total_tickets := v\<rparr>"
| "assign (SetAvailable v) e = e\<lparr>available_tickets := v\<rparr>"
| "assign (SetPrice v) e = e\<lparr>price := v\<rparr>"
| "assign (SetImageUrl v) e = e\<lparr>image_url := Some v\<rparr>"
| "assign (SetStatus v) e = e\<lparr>status_event := v\<rparr>"

definition multiple_assignments :: string where
  "multiple_assignments = ''multiple assignments to same column''"

definition clause :: "'a option \<Rightarrow> ('a \<Rightarrow> assignment) \<Rightarrow> assignment list" where
  "clause v k = (case v of None \<Rightarrow> [] | Some x \<Rightarrow> [k x])"

text \<open>
  The tail of \<open>updateEvent\<close>, from the \<open>available_tickets\<close> clause on; \<open>n\<close> is the number
  of queries the call has issued so far.
\<close>

definition updateEvent_run ::
  "fault \<Rightarrow> nat \<Rightarrow> database \<Rightarrow> int \<Rightarrow> assignment list \<Rightarrow> UpdateEventDto \<Rightarrow>
     (string + event option) \<times> database" where
  "updateEvent_run f n db i updates0 data =
     (let updates = updates0
            @ clause (u_available_tickets data) SetAvailable
            @ clause (u_price data) SetPrice
            @ clause (u_image_url data) SetImageUrl
            @ clause (u_status data) SetStatus
      in case fault_at f n of
           Some m \<Rightarrow> (Inl m, db)
         | None \<Rightarrow>
             if updates = [] then (Inr (getEventById db i), db)
             else if \<not> distinct (map column updates) then (Inl multiple_assignments, db)
             else (case update_events (\<lambda>e. id_event e = i) (\<lambda>e. fold assign updates e) (events db) of
                     Inl m \<Rightarrow> (Inl m, db)
                   | Inr (rows, returning) \<Rightarrow>
                       (Inr (case returning of [] \<Rightarrow> None | e # _ \<Rightarrow> Some e),
                        db\<lparr>events := rows\<rparr>)))"

definition updateEvent ::
  "fault \<Rightarrow> database \<Rightarrow> int \<Rightarrow> UpdateEventDto \<Rightarrow> (string + event option) \<times> database" where
  "updateEvent f db i data =
     (let updates = clause (u_title data) SetTitle
            @ clause (u_description data) SetDescription
            @ clause (u_venue data) SetVenue
            @ clause (u_event_date data) SetEventDate
      in case u_total_tickets data of
           None \<Rightarrow> updateEvent_run f 0 db i updates data
         | Some newTotal \<Rightarrow>
             (case fault_at f 0 of
                Some m \<Rightarrow> (Inl m, db)
              | None \<Rightarrow>
                  (case getEventById db i of
                     None \<Rightarrow> (Inl ''Event not found'', db)
                   | Some currentEvent \<Rightarrow>
                       let currentTotal = total_tickets currentEvent;
                           currentAvailable = available_tickets currentEvent;
                           adjustment = newTotal - currentTotal;
                           newAvailable = max 0 (currentAvailable + adjustment)
                       in updateEvent_run f 1 db i
                            (updates @ [SetTotal newTotal, SetAvailable newAvailable]) data)))"

text \<open>
  \<open>INSERT INTO tickets\<close>, as the table is declared in migrations.ts: the server refuses a
  row whose \<open>title\<close> is longer than the column (\<open>VARCHAR(255)\<close>; the titles written here
  do not end in a space, so none is truncated), a row that breaks a \<open>CHECK\<close> constraint, and
  a row whose \<open>event_id\<close> or \<open>user_id\<close> is not the id of a row of the table it references.
  \<open>d\<close> holds the tables as the transaction of the statement sees them.
\<close>

definition tickets_check :: "ticket \<Rightarrow> bool" where
  "tickets_check t =
     (status_ticket t \<in> set [''open'', ''in_progress'', ''resolved'', ''closed'', ''purchased'',
                               ''cancelled''] \<and>
      ticket_type t \<in> set [''support'', ''event''] \<and> 0 < quantity t)"

definition tickets_violation :: "database \<Rightarrow> ticket \<Rightarrow> string option" where
  "tickets_violation d t =
     (if 255 < length (title_ticket t) then
        Some ''value too long for type character varying(255)''
      else if \<not> tickets_check t then
        Some ''new row for relation \"tickets\" violates check constraint''
      else if event_id t \<notin> set (map id_event (events d)) then
        Some ''insert or update on table \"tickets\" violates foreign key constraint \"tickets_event_id_fkey\"''
      else if user_id_ticket t \<notin> set (map id_user (users d)) then
        Some ''insert or update on table \"tickets\" violates foreign key constraint \"tickets_user_id_fkey\"''
      else None)"

text \<open>
  \<open>purchaseTickets\<close>. The queries of one call are numbered: \<open>BEGIN\<close> is 0, the locking
  \<open>SELECT\<close> 1, the \<open>UPDATE\<close> 2, the \<open>INSERT\<close> of the loop's round \<open>i\<close> is \<open>3 + i\<close>,
  \<open>COMMIT\<close> follows the last \<open>INSERT\<close>, and the read of the updated event follows
  \<open>COMMIT\<close>. A \<open>COMMIT\<close> that throws has not committed; a \<open>COMMIT\<close> whose reply is lost
  after the server has committed leaves what the fault of the following read leaves. The
  \<open>ROLLBACK\<close> of the handler is taken to go through: the server drops an open transaction
  as well when the connection is lost. A \<open>pool.connect()\<close> that fails throws before
  anything is sent; it leaves what a fault of \<open>BEGIN\<close> leaves.

  The call returns its result or error together with the connection as it goes back to
  the pool; \<open>committed\<close> of that connection is the database every later request sees.
\<close>

definition ticket_row :: "int \<Rightarrow> event \<Rightarrow> int \<Rightarrow> int \<Rightarrow> int \<Rightarrow> ticket" where
  "ticket_row now ev eventId uid i =
     \<lparr>event_id = eventId, user_id_ticket = uid,
      title_ticket = title_event ev @ '' - Ticket '' @ show_int (i + 1),
      status_ticket = ''purchased'', ticket_type = ''event'', quantity = 1,
      purchase_price = price ev, purchase_date = now\<rparr>"

function insert_tickets ::
  "fault \<Rightarrow> int \<Rightarrow> event \<Rightarrow> int \<Rightarrow> int \<Rightarrow> int \<Rightarrow> int \<Rightarrow> client \<Rightarrow> string option \<times> client" where
  "insert_tickets f now ev eventId uid qty i c =
     (if i < qty then
        (case fault_at f (3 + nat i) of
           Some m \<Rightarrow> (Some m, c)
         | None \<Rightarrow>
             (case tickets_violation (view c) (ticket_row now ev eventId uid i) of
                Some m \<Rightarrow> (Some m, c)
              | None \<Rightarrow>
                  insert_tickets f now ev eventId uid qty (i + 1)
                    (store ((view c)\<lparr>tickets := tickets (view c)
                               @ [ticket_row now ev eventId uid i]\<rparr>) c)))
      else (None, c))"
  by pat_completeness auto
termination
  by (relation "measure (\<lambda>(f, now, ev, eventId, uid, qty, i, c). nat (qty - i))") auto

definition purchase_try ::
  "fault \<Rightarrow> int \<Rightarrow> client \<Rightarrow> int \<Rightarrow> int \<Rightarrow> int \<Rightarrow> (string + event option) \<times> client" where
  "purchase_try f now c0 eventId qty uid =
     (case fault_at f 0 of
        Some m \<Rightarrow> (Inl m, c0)
      | None \<Rightarrow>
     let c1 = BEGIN c0 in
     (case fault_at f 1 of
        Some m \<Rightarrow> (Inl m, c1)
      | None \<Rightarrow>
     (case select_event (view c1) eventId of
        [] \<Rightarrow> (Inl ''Event not found'', c1)
      | ev # _ \<Rightarrow>
          if available_tickets ev < qty then
            (Inl (''Not enough tickets available. Available: '' @ show_int (available_tickets ev)
                  @ '', Requested: '' @ show_int qty), c1)
          else if status_event ev \<noteq> ''upcoming'' \<and> status_event ev \<noteq> ''live'' then
            (Inl (''Cannot purchase tickets for '' @ status_event ev @ '' event''), c1)
          else
            let newAvailable = available_tickets ev - qty in
            (case fault_at f 2 of
               Some m \<Rightarrow> (Inl m, c1)
             | None \<Rightarrow>
            (case update_events (\<lambda>e. id_event e = eventId)
                    (\<lambda>e. e\<lparr>available_tickets := newAvailable\<rparr>) (events (view c1)) of
               Inl m \<Rightarrow> (Inl m, c1)
             | Inr (rows, returning) \<Rightarrow>
                 let c2 = store ((view c1)\<lparr>events := rows\<rparr>) c1 in
                 (case insert_tickets f now ev eventId uid qty 0 c2 of
                    (Some m, c3) \<Rightarrow> (Inl m, c3)
                  | (None, c3) \<Rightarrow>
                      (case fault_at f (3 + nat qty) of
                         Some m \<Rightarrow> (Inl m, c3)
                       | None \<Rightarrow>
                           let c4 = COMMIT c3 in
                           (case fault_at f (4 + nat qty) of
                              Some m \<Rightarrow> (Inl m, c4)
                            | None \<Rightarrow> (Inr (getEventById (committed c4) eventId), c4)))))))))"

definition purchaseTickets ::
  "fault \<Rightarrow> int \<Rightarrow> database \<Rightarrow> int \<Rightarrow> int \<Rightarrow> int \<Rightarrow> (string + event option) \<times> client" where
  "purchaseTickets f now db eventId qty uid =
     (case purchase_try f now (connect db) eventId qty uid of
        (Inr updatedEvent, c) \<Rightarrow> (Inr updatedEvent, release c)
      | (Inl err, c) \<Rightarrow> (Inl err, release (ROLLBACK c)))"

subsection \<open>EventController.purchaseTickets\<close>

record AuthPayload =
  userId :: int
  email_auth :: string
  role_auth :: string

record 'a response =
  status :: nat
  error :: string
  message :: string
  data_json :: "'a option"

definition reply :: "nat \<Rightarrow> string \<Rightarrow> string \<Rightarrow> 'a response" where
  "reply code err msg = \<lparr>status = code, error = err, message = msg, data_json = None\<rparr>"

text \<open>
  The request as the handler reads it: the identity the gate attached, the \<open>:eventId\<close>
  parameter after \<open>parseInt\<close> (\<open>None\<close> for \<open>NaN\<close>), and the \<open>quantity\<close> of the body.
  The handler answers and leaves the committed tables of the connection the service has
  released.
\<close>

record PurchaseRequest =
  req_user :: "AuthPayload option"
  param_eventId :: "int option"
  body_quantity :: "int option"

definition purchase_status :: "string \<Rightarrow> nat" where
  "purchase_status msg =
     (if includes_str msg ''not found'' then 404
      else if includes_str msg ''available'' then 400 else 500)"

definition EventController_purchaseTickets ::
  "fault \<Rightarrow> int \<Rightarrow> database \<Rightarrow> PurchaseRequest \<Rightarrow> event response \<times> database" where
  "EventController_purchaseTickets f now db req =
     (case req_user req of
        None \<Rightarrow> (reply 401 ''Unauthorized'' ''Authentication required'', db)
      | Some u \<Rightarrow>
          if userId u = 0 then (reply 401 ''Unauthorized'' ''Authentication required'', db)
          else (case param_eventId req of
            None \<Rightarrow> (reply 400 ''Validation error'' ''Invalid event ID'', db)
          | Some eventId \<Rightarrow>
              (case body_quantity req of
                 None \<Rightarrow> (reply 400 ''Validation error'' ''Quantity must be at least 1'', db)
               | Some q \<Rightarrow>
                   if q = 0 \<or> q < 1 then
                     (reply 400 ''Validation error'' ''Quantity must be at least 1'', db)
                   else (case purchaseTickets f now db eventId q (userId u) of
                     (Inr ev, c) \<Rightarrow>
                       (\<lparr>status = 200,
                         error = [],
                         message = ''Successfully purchased '' @ show_int q @ '' ticket(s)'',
                         data_json = ev\<rparr>, committed c)
                   | (Inl msg, c) \<Rightarrow>
                       let statusCode = purchase_status msg in
                       (reply statusCode
                          (if statusCode = 404 then ''Not found''
                           else if statusCode = 400 then ''Bad request''
                           else ''Internal server error'')
                          (if msg = [] then ''Failed to purchase tickets'' else msg), committed c)))))"

subsection \<open>Input validation (utils/validation.ts)\<close>

text \<open>
  A character is a code unit below 256. \<open>is_space\<close> is the white space of \<open>trim\<close> and of
  the regular expression class \<open>\s\<close> in that range; \<open>is_control\<close> is the class
  \<open>[\x00-\x1F\x7F]\<close>.
\<close>

definition is_space :: "char \<Rightarrow> bool" where
  "is_space c = (c \<in> set [CHR 0x09, CHR 0x0A, CHR 0x0B, CHR 0x0C, CHR 0x0D, CHR 0x20, CHR 0xA0])"

definition is_control :: "char \<Rightarrow> bool" where
  "is_control c = ((of_char c :: nat) \<le> 31 \<or> (of_char c :: nat) = 127)"

definition trim :: "string \<Rightarrow> string" where
  "trim s = rev (dropWhile is_space (rev (dropWhile is_space s)))"

definition toLowerCase_char :: "char \<Rightarrow> char" where
  "toLowerCase_char c =
     (let n = (of_char c :: nat)
      in if (65 \<le> n \<and> n \<le> 90) \<or> (192 \<le> n \<and> n \<le> 222 \<and> n \<noteq> 215)
         then char_of (n + 32) else c)"

definition toLowerCase :: "string \<Rightarrow> string" where
  "toLowerCase s = map toLowerCase_char s"

text \<open>\<open>/^[^\s@]+@[^\s@]+\.[^\s@]+$/\<close>: the local part ends at the first \<open>@\<close>; what follows
  has no \<open>@\<close> and no white space, and a dot that is neither its first nor its last
  character.\<close>

definition isValidEmail :: "string \<Rightarrow> bool" where
  "isValidEmail s =
     (let a = takeWhile (\<lambda>c. c \<noteq> CHR ''@'') s
      in a \<noteq> [] \<and> list_all (\<lambda>c. \<not> is_space c) a \<and>
         (case drop (length a) s of
            [] \<Rightarrow> False
          | at # d \<Rightarrow> list_all (\<lambda>c. \<not> is_space c \<and> c \<noteq> CHR ''@'') d \<and>
                      CHR ''.'' \<in> set (butlast (tl d))))"

definition sanitizeInput :: "string \<Rightarrow> string" where
  "sanitizeInput input = trim (filter (\<lambda>c. \<not> is_control c) input)"

text \<open>The validators return \<open>Inl\<close> the message of an invalid input.\<close>

definition isValidPassword :: "string option \<Rightarrow> string + unit" where
  "isValidPassword password =
     (case password of
        None \<Rightarrow> Inl ''Password must be at least 8 characters long''
      | Some p \<Rightarrow>
          if length p < 8 then Inl ''Password must be at least 8 characters long''
          else if length p > 128 then Inl ''Password must be less than 128 characters''
          else Inr ())"

definition validateAndSanitizeEmail :: "string option \<Rightarrow> string + string" where
  "validateAndSanitizeEmail e =
     (case e of
        None \<Rightarrow> Inl ''Email is required''
      | Some s \<Rightarrow>
          if s = [] then Inl ''Email is required''
          else let sanitized = sanitizeInput (toLowerCase s)
               in if sanitized = [] then Inl ''Email cannot be empty''
                  else if length sanitized > 255 then Inl ''Email is too long''
                  else if \<not> isValidEmail sanitized then Inl ''Invalid email format''
                  else Inr sanitized)"

definition validateStringLength :: "string option \<Rightarrow> nat \<Rightarrow> nat \<Rightarrow> string \<Rightarrow> string + unit" where
  "validateStringLength v minLength maxLength fieldName =
     (case v of
        None \<Rightarrow> Inl (fieldName @ '' is required'')
      | Some s \<Rightarrow>
          if s = [] \<or> length (trim s) = 0 then Inl (fieldName @ '' is required'')
          else let trimmed = trim s
               in if length trimmed < minLength then
                    Inl (fieldName @ '' must be at least '' @ show_nat minLength @ '' characters'')
                  else if length trimmed > maxLength then
                    Inl (fieldName @ '' must be less than '' @ show_nat maxLength @ '' characters'')
                  else Inr ())"

subsection \<open>The libraries and the configuration\<close>

text \<open>
  The cryptographic libraries and the process environment are parameters of the model:
  the SHA-256 digest of \<open>hashToken\<close>, \<open>jwt.sign\<close> and \<open>jwt.verify\<close> under the server's
  secret (both read the clock), \<open>bcrypt.hash\<close> and \<open>bcrypt.compare\<close>, and the variables
  \<open>JWT_EXPIRES_IN\<close> and \<open>ADMIN_REGISTRATION_SECRET\<close>. \<open>jwt.verify\<close> returns the decoded
  claims or throws an error, of which the gate reads the \<open>name\<close>.
\<close>

datatype verified = Decoded AuthPayload | Thrown string

record env =
  sha256 :: "string \<Rightarrow> string"
  jwt_sign :: "AuthPayload \<Rightarrow> int \<Rightarrow> string"
  jwt_verify :: "string \<Rightarrow> int \<Rightarrow> verified"
  bcrypt_hash :: "string \<Rightarrow> string"
  bcrypt_compare :: "string \<Rightarrow> string \<Rightarrow> bool"
  JWT_EXPIRES_IN :: string
  ADMIN_REGISTRATION_SECRET :: "string option"

subsection \<open>SessionService\<close>

record CreateSessionDto =
  s_user_id :: int
  s_token_hash :: string
  s_expires_at :: "int option"
  s_device_info :: "string option"
  s_ip_address :: "string option"

definition hashToken :: "env \<Rightarrow> string \<Rightarrow> string" where
  "hashToken E token = sha256 E token"

text \<open>
  Each function of the service sends one statement; \<open>q\<close> is the fault of that statement,
  if any. \<open>expires_at\<close> is \<open>None\<close> for JavaScript's invalid date, which the column
  (\<open>TIMESTAMP NOT NULL\<close>) does not take.
\<close>

definition createSession ::
  "env \<Rightarrow> int \<Rightarrow> string option \<Rightarrow> database \<Rightarrow> CreateSessionDto \<Rightarrow> (string + session) \<times> database" where
  "createSession E now q db dto =
     (case q of
        Some m \<Rightarrow> (Inl m, db)
      | None \<Rightarrow>
          (case s_expires_at dto of
             None \<Rightarrow> (Inl ''invalid input syntax for type timestamp'', db)
           | Some e \<Rightarrow>
               let row = \<lparr>user_id = s_user_id dto,
                          token_hash = hashToken E (s_token_hash dto),
                          expires_at = e,
                          is_revoked = False,
                          revoked_at = None,
                          device_info = or_null (s_device_info dto),
                          ip_address = or_null (s_ip_address dto),
                          last_used_at = now\<rparr>
               in (Inr row, db\<lparr>sessions := sessions db @ [row]\<rparr>)))"

text \<open>\<open>SELECT ... WHERE token_hash = $1 LIMIT 1\<close> has no \<open>ORDER BY\<close>; the model returns the
  first matching row in table order.\<close>

definition findSessionByToken ::
  "env \<Rightarrow> string option \<Rightarrow> database \<Rightarrow> string \<Rightarrow> string + session option" where
  "findSessionByToken E q db token =
     (case q of
        Some m \<Rightarrow> Inl m
      | None \<Rightarrow>
          (case filter (\<lambda>s. token_hash s = hashToken E token) (sessions db) of
             [] \<Rightarrow> Inr None
           | s # _ \<Rightarrow> Inr (Some s)))"

definition isTokenValid ::
  "env \<Rightarrow> int \<Rightarrow> string option \<Rightarrow> database \<Rightarrow> string \<Rightarrow> string + bool" where
  "isTokenValid E now q db token =
     (case findSessionByToken E q db token of
        Inl m \<Rightarrow> Inl m
      | Inr None \<Rightarrow> Inr False
      | Inr (Some s) \<Rightarrow>
          if is_revoked s then Inr False
          else if expires_at s < now then Inr False
          else Inr True)"

definition revokeToken ::
  "env \<Rightarrow> int \<Rightarrow> string option \<Rightarrow> database \<Rightarrow> string \<Rightarrow> (string + bool) \<times> database" where
  "revokeToken E now q db token =
     (case q of
        Some m \<Rightarrow> (Inl m, db)
      | None \<Rightarrow>
          let hit = (\<lambda>s. token_hash s = hashToken E token \<and> is_revoked s = False)
          in (Inr (length (filter hit (sessions db)) > 0),
              db\<lparr>sessions := map (\<lambda>s. if hit s then s\<lparr>is_revoked := True, revoked_at := Some now\<rparr>
                                        else s) (sessions db)\<rparr>))"

definition revokeAllUserSessions ::
  "int \<Rightarrow> string option \<Rightarrow> database \<Rightarrow> int \<Rightarrow> (string + nat) \<times> database" where
  "revokeAllUserSessions now q db u =
     (case q of
        Some m \<Rightarrow> (Inl m, db)
      | None \<Rightarrow>
          let hit = (\<lambda>s. user_id s = u \<and> is_revoked s = False)
          in (Inr (length (filter hit (sessions db))),
              db\<lparr>sessions := map (\<lambda>s. if hit s then s\<lparr>is_revoked := True, revoked_at := Some now\<rparr>
                                        else s) (sessions db)\<rparr>))"

definition updateLastUsed ::
  "env \<Rightarrow> int \<Rightarrow> string option \<Rightarrow> database \<Rightarrow> string \<Rightarrow> (string + unit) \<times> database" where
  "updateLastUsed E now q db token =
     (case q of
        Some m \<Rightarrow> (Inl m, db)
      | None \<Rightarrow>
          (Inr (),
           db\<lparr>sessions := map (\<lambda>s. if token_hash s = hashToken E token \<and> is_revoked s = False
                                     then s\<lparr>last_used_at := now\<rparr> else s) (sessions db)\<rparr>))"

definition days30 :: int where
  "days30 = 30 * 24 * 60 * 60 * 1000"

definition cleanupExpiredSessions ::
  "int \<Rightarrow> string option \<Rightarrow> database \<Rightarrow> (string + nat) \<times> database" where
  "cleanupExpiredSessions now q db =
     (case q of
        Some m \<Rightarrow> (Inl m, db)
      | None \<Rightarrow>
          let stale = (\<lambda>s. expires_at s < now \<or>
                            (is_revoked s \<and> (case revoked_at s of None \<Rightarrow> False
                                               | Some r \<Rightarrow> r < now - days30)))
          in (Inr (length (filter stale (sessions db))),
              db\<lparr>sessions := filter (\<lambda>s. \<not> stale s) (sessions db)\<rparr>))"

subsection \<open>The authentication gate (middleware/auth.ts)\<close>

text \<open>
  The gate either sends a response or sets \<open>req.user\<close> and calls \<open>next()\<close>. Its two
  queries are the lookup of \<open>isTokenValid\<close> (0) and the update of \<open>updateLastUsed\<close> (1).
\<close>

datatype 'a gate = Rejected "'a response" | Next AuthPayload

definition authenticate ::
  "env \<Rightarrow> int \<Rightarrow> fault \<Rightarrow> database \<Rightarrow> string option \<Rightarrow> 'a gate \<times> database" where
  "authenticate E now f db authorization =
     (case authorization of
        None \<Rightarrow> (Rejected (reply 401 ''Unauthorized'' ''No token provided''), db)
      | Some authHeader \<Rightarrow>
          if authHeader = [] then (Rejected (reply 401 ''Unauthorized'' ''No token provided''), db)
          else
            let token = (if startsWith authHeader ''Bearer '' then drop 7 authHeader else authHeader)
            in if token = [] then (Rejected (reply 401 ''Unauthorized'' ''Invalid token format''), db)
               else (case jwt_verify E token now of
                 Thrown name \<Rightarrow>
                   if name = ''TokenExpiredError'' then
                     (Rejected (reply 401 ''Unauthorized'' ''Token expired''), db)
                   else if name = ''JsonWebTokenError'' then
                     (Rejected (reply 401 ''Unauthorized'' ''Invalid token''), db)
                   else (Rejected (reply 500 ''Internal server error'' ''Token verification failed''), db)
               | Decoded decoded \<Rightarrow>
                   (case isTokenValid E now (fault_at f 0) db token of
                      Inl m \<Rightarrow>
                        (Rejected (reply 500 ''Internal server error'' ''Token verification failed''), db)
                    | Inr isValid \<Rightarrow>
                        if \<not> isValid then
                          (Rejected (reply 401 ''Unauthorized'' ''Token has been revoked''), db)
                        else (case updateLastUsed E now (fault_at f 1) db token of
                          (Inl m, db') \<Rightarrow>
                            (Rejected (reply 500 ''Internal server error'' ''Token verification failed''), db')
                        | (Inr u, db') \<Rightarrow>
                            (Next \<lparr>userId = userId decoded, email_auth = email_auth decoded,
                                   role_auth = role_auth decoded\<rparr>, db')))))"

definition authorize :: "string list \<Rightarrow> AuthPayload option \<Rightarrow> 'a gate" where
  "authorize allowedRoles u =
     (case u of
        None \<Rightarrow> Rejected (reply 401 ''Unauthorized'' ''Authentication required'')
      | Some p \<Rightarrow>
          if role_auth p \<notin> set allowedRoles then
            Rejected (reply 403 ''Forbidden'' ''Insufficient permissions'')
          else Next p)"

subsection \<open>Statements on the users table\<close>

text \<open>
  \<open>INSERT INTO users (cols) VALUES ($p, ...)\<close> sent with the list \<open>vals\<close> of parameters.
  The server refuses a bind message whose number of parameters differs from the number
  the statement requires. Columns that are not named take their defaults (\<open>role\<close> is
  \<open>'user'\<close>, \<open>is_active\<close> is true); \<open>email\<close> and \<open>password_hash\<close> must not be null, \<open>email\<close>
  is unique, \<open>role\<close> is \<open>'user'\<close>, \<open>'admin'\<close> or null. A value \<open>None\<close> is \<open>NULL\<close>.
\<close>

definition bind_message :: "nat \<Rightarrow> nat \<Rightarrow> string" where
  "bind_message supplied required =
     ''bind message supplies '' @ show_nat supplied
       @ '' parameters, but prepared statement \"\" requires '' @ show_nat required"

definition insert_users ::
  "string list \<Rightarrow> nat list \<Rightarrow> string option list \<Rightarrow> database \<Rightarrow> (string + user) \<times> database" where
  "insert_users cols params vals db =
     (let required = fold max params 0
      in if length vals \<noteq> required then (Inl (bind_message (length vals) required), db)
         else
           let bound = map_of (zip cols (map (\<lambda>p. vals ! (p - 1)) params));
               db1 = db\<lparr>users_id_seq := users_id_seq db + 1\<rparr>
           in (case (bound ''email'', bound ''password_hash'') of
                 (Some (Some e), Some (Some h)) \<Rightarrow>
                   let r = (case bound ''role'' of None \<Rightarrow> Some ''user'' | Some v \<Rightarrow> v)
                   in if r \<noteq> None \<and> r \<noteq> Some ''user'' \<and> r \<noteq> Some ''admin'' then
                        (Inl ''new row for relation \"users\" violates check constraint'', db1)
                      else if e \<in> set (map email (users db)) then
                        (Inl ''duplicate key value violates unique constraint \"users_email_key\"'', db1)
                      else
                        let row = \<lparr>id_user = users_id_seq db + 1, email = e, password_hash = h,
                                   first_name = (case bound ''first_name'' of None \<Rightarrow> None | Some v \<Rightarrow> v),
                                   last_name = (case bound ''last_name'' of None \<Rightarrow> None | Some v \<Rightarrow> v),
                                   role = r, is_active = True\<rparr>
                        in (Inr row, db1\<lparr>users := users db @ [row]\<rparr>)
               | _ \<Rightarrow> (Inl ''null value violates not-null constraint'', db1)))"

subsection \<open>AuthService\<close>

record Request =
  h_authorization :: "string option"
  h_user_agent :: "string option"
  h_x_forwarded_for :: "string option"
  h_x_real_ip :: "string option"
  h_x_admin_secret :: "string option"
  r_ip :: "string option"
  r_remoteAddress :: "string option"

record RegisterDto =
  d_email :: string
  d_password :: string
  d_first_name :: "string option"
  d_last_name :: "string option"

record LoginDto =
  l_email :: string
  l_password :: string

text \<open>The user as the services return it, without \<open>password_hash\<close>.\<close>

record public_user =
  pu_id :: int
  pu_email :: string
  pu_first_name :: "string option"
  pu_last_name :: "string option"
  pu_role :: "string option"
  pu_is_active :: bool

definition public :: "user \<Rightarrow> public_user" where
  "public u = \<lparr>pu_id = id_user u, pu_email = email u, pu_first_name = first_name u,
               pu_last_name = last_name u, pu_role = role u, pu_is_active = is_active u\<rparr>"

text \<open>\<open>a || b\<close> on optional strings.\<close>

definition or_opt :: "string option \<Rightarrow> string option \<Rightarrow> string option" where
  "or_opt a b = (case or_null a of None \<Rightarrow> b | Some s \<Rightarrow> Some s)"

definition getDeviceInfo :: "Request \<Rightarrow> string option \<times> string option" where
  "getDeviceInfo req =
     (or_null (h_user_agent req),
      or_opt (map_option (\<lambda>s. trim (takeWhile (\<lambda>c. c \<noteq> CHR '','') s)) (h_x_forwarded_for req))
        (or_opt (h_x_real_ip req) (or_opt (r_ip req) (or_null (r_remoteAddress req)))))"

text \<open>
  \<open>parseInt\<close> without a radix: leading white space, a sign, a \<open>0x\<close> prefix for base 16,
  then the longest run of digits; \<open>None\<close> is \<open>NaN\<close>.
\<close>

definition digit_val :: "char \<Rightarrow> nat" where
  "digit_val c =
     (case map_of (zip ''0123456789abcdefABCDEF''
                     [0, 1, 2, 3, 4, 5, 6, 7, 8, 9, 10, 11, 12, 13, 14, 15, 10, 11, 12, 13, 14, 15]) c of
        None \<Rightarrow> 16 | Some v \<Rightarrow> v)"

definition parse_digits :: "nat \<Rightarrow> string \<Rightarrow> int option" where
  "parse_digits radix s =
     (let ds = takeWhile (\<lambda>c. digit_val c < radix) s
      in if ds = [] then None
         else Some (foldl (\<lambda>a c. a * int radix + int (digit_val c)) 0 ds))"

definition parse_unsigned :: "string \<Rightarrow> int option" where
  "parse_unsigned s =
     (if startsWith s ''0x'' \<or> startsWith s ''0X'' then parse_digits 16 (drop 2 s)
      else parse_digits 10 s)"

definition parseInt :: "string \<Rightarrow> int option" where
  "parseInt s =
     (case dropWhile is_space s of
        [] \<Rightarrow> None
      | c # cs \<Rightarrow>
          if c = CHR ''-'' then map_option uminus (parse_unsigned cs)
          else if c = CHR ''+'' then parse_unsigned cs
          else parse_unsigned (c # cs))"

definition endsWith :: "string \<Rightarrow> char \<Rightarrow> bool" where
  "endsWith s c = (s \<noteq> [] \<and> last s = c)"

definition getExpirationDate :: "env \<Rightarrow> int \<Rightarrow> int option" where
  "getExpirationDate E now =
     (let expiresIn = JWT_EXPIRES_IN E
      in if endsWith expiresIn CHR ''d'' then
           map_option (\<lambda>days. now + days * 24 * 60 * 60 * 1000) (parseInt (butlast expiresIn))
         else if endsWith expiresIn CHR ''h'' then
           map_option (\<lambda>hours. now + hours * 60 * 60 * 1000) (parseInt (butlast expiresIn))
         else if endsWith expiresIn CHR ''m'' then
           map_option (\<lambda>minutes. now + minutes * 60 * 1000) (parseInt (butlast expiresIn))
         else if endsWith expiresIn CHR ''s'' then
           map_option (\<lambda>seconds. now + seconds * 1000) (parseInt (butlast expiresIn))
         else Some (now + 7 * 24 * 60 * 60 * 1000))"

text \<open>
  The common tail of \<open>register\<close>, \<open>registerAdmin\<close> and \<open>login\<close>: sign a token for the
  user, record its session with query \<open>n\<close>, return the user and the token.
  \<open>dflt\<close> is the role the payload takes when the row has none.
\<close>

definition issue ::
  "env \<Rightarrow> int \<Rightarrow> fault \<Rightarrow> nat \<Rightarrow> database \<Rightarrow> user \<Rightarrow> string \<Rightarrow> Request \<Rightarrow>
     (string + public_user \<times> string) \<times> database" where
  "issue E now f n db u dflt req =
     (let payload = \<lparr>userId = id_user u, email_auth = email u, role_auth = or_else (role u) dflt\<rparr>;
          token = jwt_sign E payload now;
          deviceInfo = getDeviceInfo req;
          expiresAt = getExpirationDate E now
      in case createSession E now (fault_at f n) db
                \<lparr>s_user_id = id_user u, s_token_hash = token, s_expires_at = expiresAt,
                 s_device_info = fst deviceInfo, s_ip_address = snd deviceInfo\<rparr> of
           (Inl m, db') \<Rightarrow> (Inl m, db')
         | (Inr row, db') \<Rightarrow> (Inr (public u, token), db'))"

definition register ::
  "env \<Rightarrow> int \<Rightarrow> fault \<Rightarrow> database \<Rightarrow> RegisterDto \<Rightarrow> Request \<Rightarrow>
     (string + public_user \<times> string) \<times> database" where
  "register E now f db data req =
     (case fault_at f 0 of
        Some m \<Rightarrow> (Inl m, db)
      | None \<Rightarrow>
          if filter (\<lambda>u. email u = d_email data) (users db) \<noteq> [] then
            (Inl ''User with this email already exists'', db)
          else
            let passwordHash = bcrypt_hash E (d_password data)
            in (case fault_at f 1 of
                  Some m \<Rightarrow> (Inl m, db)
                | None \<Rightarrow>
                    (case insert_users [''email'', ''password_hash'', ''first_name'', ''last_name'']
                            [1, 2, 3, 4]
                            [Some (d_email data), Some passwordHash,
                             or_null (d_first_name data), or_null (d_last_name data)] db of
                       (Inl m, db') \<Rightarrow> (Inl m, db')
                     | (Inr u, db') \<Rightarrow> issue E now f 2 db' u ''user'' req)))"

definition registerAdmin ::
  "env \<Rightarrow> int \<Rightarrow> fault \<Rightarrow> database \<Rightarrow> RegisterDto \<Rightarrow> Request \<Rightarrow>
     (string + public_user \<times> string) \<times> database" where
  "registerAdmin E now f db data req =
     (case fault_at f 0 of
        Some m \<Rightarrow> (Inl m, db)
      | None \<Rightarrow>
          if filter (\<lambda>u. email u = d_email data \<and> role u = Some ''admin'') (users db) \<noteq> [] then
            (Inl ''Admin with this email already exists'', db)
          else
            let passwordHash = bcrypt_hash E (d_password data)
            in (case fault_at f 1 of
                  Some m \<Rightarrow> (Inl m, db)
                | None \<Rightarrow>
                    (case insert_users [''email'', ''password_hash'', ''first_name'', ''last_name'', ''role'']
                            [1, 2, 3, 4, 5]
                            [Some (d_email data), Some passwordHash,
                             or_null (d_first_name data), or_null (d_last_name data)] db of
                       (Inl m, db') \<Rightarrow> (Inl m, db')
                     | (Inr u, db') \<Rightarrow> issue E now f 2 db' u ''admin'' req)))"

definition login ::
  "env \<Rightarrow> int \<Rightarrow> fault \<Rightarrow> database \<Rightarrow> LoginDto \<Rightarrow> Request \<Rightarrow>
     (string + public_user \<times> string) \<times> database" where
  "login E now f db data req =
     (case fault_at f 0 of
        Some m \<Rightarrow> (Inl m, db)
      | None \<Rightarrow>
          (case filter (\<lambda>u. email u = l_email data) (users db) of
             [] \<Rightarrow> (Inl ''Invalid email or password'', db)
           | u # _ \<Rightarrow>
               if \<not> is_active u then (Inl ''User account is inactive'', db)
               else if \<not> bcrypt_compare E (l_password data) (password_hash u) then
                 (Inl ''Invalid email or password'', db)
               else issue E now f 1 db u ''user'' req))"

definition logout ::
  "env \<Rightarrow> int \<Rightarrow> fault \<Rightarrow> database \<Rightarrow> string \<Rightarrow> (string + unit) \<times> database" where
  "logout E now f db token =
     (case revokeToken E now (fault_at f 0) db token of
        (Inl m, db') \<Rightarrow> (Inl m, db')
      | (Inr changed, db') \<Rightarrow> (Inr (), db'))"

subsection \<open>UserService.updateUser\<close>

record UpdateUserDto =
  uu_email :: "string option"
  uu_password :: "string option"
  uu_first_name :: "string option"
  uu_last_name :: "string option"
  uu_role :: "string option"
  uu_is_active :: "bool option"

datatype user_assignment =
    SetEmail string
  | SetPasswordHash string
  | SetFirstName string
  | SetLastName string
  | SetRole string
  | SetIsActive bool

fun assign_user :: "user_assignment \<Rightarrow> user \<Rightarrow> user" where
  "assign_user (SetEmail v) u = u\<lparr>email := v\<rparr>"
| "assign_user (SetPasswordHash v) u = u\<lparr>password_hash := v\<rparr>"
| "assign_user (SetFirstName v) u = u\<lparr>first_name := Some v\<rparr>"
| "assign_user (SetLastName v) u = u\<lparr>last_name := Some v\<rparr>"
| "assign_user (SetRole v) u = u\<lparr>role := Some v\<rparr>"
| "assign_user (SetIsActive v) u = u\<lparr>is_active := v\<rparr>"

definition user_clause :: "'a option \<Rightarrow> ('a \<Rightarrow> user_assignment) \<Rightarrow> user_assignment list" where
  "user_clause v k = (case v of None \<Rightarrow> [] | Some x \<Rightarrow> [k x])"

definition getUserById :: "database \<Rightarrow> int \<Rightarrow> public_user option" where
  "getUserById db i =
     (case filter (\<lambda>u. id_user u = i) (users db) of [] \<Rightarrow> None | u # _ \<Rightarrow> Some (public u))"

text \<open>
  The statement of \<open>updateUser\<close>, sent as query \<open>n\<close>: the \<open>UPDATE\<close> of the row, refused
  when the new row breaks the \<open>CHECK\<close> on \<open>role\<close> or repeats another row's \<open>email\<close>.
\<close>

definition updateUser_run ::
  "env \<Rightarrow> fault \<Rightarrow> nat \<Rightarrow> database \<Rightarrow> int \<Rightarrow> UpdateUserDto \<Rightarrow>
     (string + public_user option) \<times> database" where
  "updateUser_run E f n db i data =
     (let updates = user_clause (uu_email data) SetEmail
            @ user_clause (map_option (bcrypt_hash E) (uu_password data)) SetPasswordHash
            @ user_clause (uu_first_name data) SetFirstName
            @ user_clause (uu_last_name data) SetLastName
            @ user_clause (uu_role data) SetRole
            @ user_clause (uu_is_active data) SetIsActive
      in case fault_at f n of
           Some m \<Rightarrow> (Inl m, db)
         | None \<Rightarrow>
             if updates = [] then (Inr (getUserById db i), db)
             else
               let changed = map (\<lambda>u. fold assign_user updates u) (filter (\<lambda>u. id_user u = i) (users db));
                   rows = map (\<lambda>u. if id_user u = i then fold assign_user updates u else u) (users db)
               in if \<not> list_all (\<lambda>u. role u = None \<or> role u = Some ''user'' \<or> role u = Some ''admin'') changed
                  then (Inl ''new row for relation \"users\" violates check constraint'', db)
                  else if \<not> distinct (map email rows) then
                    (Inl ''duplicate key value violates unique constraint \"users_email_key\"'', db)
                  else (Inr (case changed of [] \<Rightarrow> None | u # _ \<Rightarrow> Some (public u)),
                        db\<lparr>users := rows\<rparr>))"

definition updateUser ::
  "env \<Rightarrow> fault \<Rightarrow> database \<Rightarrow> int \<Rightarrow> UpdateUserDto \<Rightarrow> (string + public_user option) \<times> database" where
  "updateUser E f db i data =
     (case uu_email data of
        None \<Rightarrow> updateUser_run E f 0 db i data
      | Some e \<Rightarrow>
          (case fault_at f 0 of
             Some m \<Rightarrow> (Inl m, db)
           | None \<Rightarrow>
               if filter (\<lambda>u. email u = e \<and> id_user u \<noteq> i) (users db) \<noteq> [] then
                 (Inl ''Email already taken by another user'', db)
               else updateUser_run E f 1 db i data))"

subsection \<open>AuthController\<close>

record LoginBody =
  b_email :: "string option"
  b_password :: "string option"

record RegisterBody =
  rb_email :: "string option"
  rb_password :: "string option"
  rb_first_name :: "string option"
  rb_last_name :: "string option"
  rb_secret :: "string option"

definition validation_error :: "string \<Rightarrow> string \<Rightarrow> 'a response" where
  "validation_error m dflt = reply 400 ''Validation error'' (if m = [] then dflt else m)"

definition AuthController_registerAdmin ::
  "env \<Rightarrow> int \<Rightarrow> fault \<Rightarrow> database \<Rightarrow> RegisterBody \<Rightarrow> Request \<Rightarrow>
     (public_user \<times> string) response \<times> database" where
  "AuthController_registerAdmin E now f db body req =
     (case validateAndSanitizeEmail (rb_email body) of
        Inl m \<Rightarrow> (validation_error m ''Invalid email'', db)
      | Inr sanitized \<Rightarrow>
     (case isValidPassword (rb_password body) of
        Inl m \<Rightarrow> (validation_error m ''Invalid password'', db)
      | Inr u1 \<Rightarrow>
     (case validateStringLength (rb_first_name body) 1 100 ''First name'' of
        Inl m \<Rightarrow> (reply 400 ''Validation error'' m, db)
      | Inr u2 \<Rightarrow>
     (case validateStringLength (rb_last_name body) 1 100 ''Last name'' of
        Inl m \<Rightarrow> (reply 400 ''Validation error'' m, db)
      | Inr u3 \<Rightarrow>
          (case registerAdmin E now f db
                  \<lparr>d_email = sanitized,
                   d_password = (case rb_password body of None \<Rightarrow> [] | Some p \<Rightarrow> p),
                   d_first_name = rb_first_name body, d_last_name = rb_last_name body\<rparr> req of
             (Inr result, db') \<Rightarrow>
               (\<lparr>status = 201, error = [], message = ''Admin registered successfully'',
                 data_json = Some result\<rparr>, db')
           | (Inl msg, db') \<Rightarrow>
               let statusCode = (if includes_str msg ''already exists'' then 409 else 500)
               in (reply statusCode
                     (if statusCode = 409 then ''Conflict'' else ''Internal server error'')
                     (if msg = [] then ''Failed to register admin'' else msg), db'))))))"

definition AuthController_login ::
  "env \<Rightarrow> int \<Rightarrow> fault \<Rightarrow> database \<Rightarrow> LoginBody \<Rightarrow> Request \<Rightarrow>
     (public_user \<times> string) response \<times> database" where
  "AuthController_login E now f db body req =
     (case validateAndSanitizeEmail (b_email body) of
        Inl m \<Rightarrow> (validation_error m ''Invalid email'', db)
      | Inr sanitized \<Rightarrow>
          (case b_password body of
             None \<Rightarrow> (reply 400 ''Validation error'' ''Password is required'', db)
           | Some p \<Rightarrow>
               if p = [] \<or> length (trim p) = 0 then
                 (reply 400 ''Validation error'' ''Password is required'', db)
               else
                 (case login E now f db \<lparr>l_email = sanitized, l_password = p\<rparr> req of
                    (Inr result, db') \<Rightarrow>
                      (\<lparr>status = 200, error = [], message = ''Login successful'',
                        data_json = Some result\<rparr>, db')
                  | (Inl msg, db') \<Rightarrow>
                      let statusCode =
                            (if includes_str msg ''Invalid'' \<or> includes_str msg ''inactive''
                             then 401 else 500)
                      in (reply statusCode
                            (if statusCode = 401 then ''Unauthorized'' else ''Internal server error'')
                            (if msg = [] then ''Failed to login'' else msg), db'))))"

text \<open>\<open>String.prototype.replace\<close> with a string pattern: the first occurrence only.\<close>

fun replace_first :: "string \<Rightarrow> string \<Rightarrow> string \<Rightarrow> string" where
  "replace_first [] pat rep = (if pat = [] then rep else [])"
| "replace_first (x # xs) pat rep =
     (if startsWith (x # xs) pat then rep @ drop (length pat) (x # xs)
      else x # replace_first xs pat rep)"

definition AuthController_logout ::
  "env \<Rightarrow> int \<Rightarrow> fault \<Rightarrow> database \<Rightarrow> Request \<Rightarrow> unit response \<times> database" where
  "AuthController_logout E now f db req =
     (let token = (case h_authorization req of
                     None \<Rightarrow> []
                   | Some h \<Rightarrow> replace_first h ''Bearer '' [])
      in case logout E now f db token of
           (Inr u, db') \<Rightarrow> (reply 200 [] ''Logout successful'', db')
         | (Inl msg, db') \<Rightarrow>
             (reply 500 ''Internal server error'' (if msg = [] then ''Failed to logout'' else msg), db'))"

subsection \<open>Routes (routes/authRoutes.ts)\<close>

text \<open>
  \<open>protectAdminRegistration\<close> answers 403 or removes \<open>secret\<close> from the body and calls the
  next handler.
\<close>

definition protectAdminRegistration ::
  "env \<Rightarrow> Request \<Rightarrow> RegisterBody \<Rightarrow> 'a response + RegisterBody" where
  "protectAdminRegistration E req body =
     (case or_null (ADMIN_REGISTRATION_SECRET E) of
        None \<Rightarrow> Inl (reply 403 ''Forbidden'' ''Admin registration is disabled'')
      | Some ADMIN_SECRET \<Rightarrow>
          (case or_opt (rb_secret body) (h_x_admin_secret req) of
             None \<Rightarrow> Inl (reply 403 ''Forbidden'' ''Invalid admin registration secret'')
           | Some providedSecret \<Rightarrow>
               if providedSecret = [] \<or> providedSecret \<noteq> ADMIN_SECRET then
                 Inl (reply 403 ''Forbidden'' ''Invalid admin registration secret'')
               else Inr (body\<lparr>rb_secret := None\<rparr>)))"

text \<open>\<open>router.post("/register-admin", protectAdminRegistration, registerAdmin)\<close>\<close>

definition POST_register_admin ::
  "env \<Rightarrow> int \<Rightarrow> fault \<Rightarrow> database \<Rightarrow> RegisterBody \<Rightarrow> Request \<Rightarrow>
     (public_user \<times> string) response \<times> database" where
  "POST_register_admin E now f db body req =
     (case protectAdminRegistration E req body of
        Inl res \<Rightarrow> (res, db)
      | Inr body' \<Rightarrow> AuthController_registerAdmin E now f db body' req)"

text \<open>\<open>router.post("/login", login)\<close> and \<open>router.post("/logout", logout)\<close>: the handler
  is the only element of the chain.\<close>

definition POST_login ::
  "env \<Rightarrow> int \<Rightarrow> fault \<Rightarrow> database \<Rightarrow> LoginBody \<Rightarrow> Request \<Rightarrow>
     (public_user \<times> string) response \<times> database" where
  "POST_login E now f db body req = AuthController_login E now f db body req"

definition POST_logout ::
  "env \<Rightarrow> int \<Rightarrow> fault \<Rightarrow> database \<Rightarrow> Request \<Rightarrow> unit response \<times> database" where
  "POST_logout E now f db req = AuthController_logout E now f db req"

subsection \<open>The inventory invariant and the operations that write events\<close>

definition inventory_ok :: "event \<Rightarrow> bool" where
  "inventory_ok e = (0 \<le> available_tickets e \<and> available_tickets e \<le> total_tickets e)"

definition inventory_inv :: "database \<Rightarrow> bool" where
  "inventory_inv db = list_all inventory_ok (events db)"

text \<open>The primary key of \<open>events\<close>: ids are distinct and were drawn from the sequence.\<close>

definition events_pk :: "database \<Rightarrow> bool" where
  "events_pk db =
     (distinct (map id_event (events db)) \<and>
      list_all (\<lambda>e. id_event e \<le> events_id_seq db) (events db))"

text \<open>A \<open>SET\<close> clause that leaves the two inventory columns alone.\<close>

definition plain :: "assignment \<Rightarrow> bool" where
  "plain a = (column a \<noteq> ''total_tickets'' \<and> column a \<noteq> ''available_tickets'')"

datatype event_write =
    Create CreateEventDto "int option"
  | Update int UpdateEventDto
  | Purchase PurchaseRequest

fun run_write :: "fault \<Rightarrow> int \<Rightarrow> database \<Rightarrow> event_write \<Rightarrow> database" where
  "run_write f now db (Create d createdBy) = snd (createEvent f db d createdBy)"
| "run_write f now db (Update i d) = snd (updateEvent f db i d)"
| "run_write f now db (Purchase req) = snd (EventController_purchaseTickets f now db req)"

text \<open>An update that gives \<open>available_tickets\<close> alone, and more of them than the
  \<open>total_tickets\<close> of a row it updates.\<close>

fun exceeds_total :: "database \<Rightarrow> event_write \<Rightarrow> bool" where
  "exceeds_total db (Update i d) =
     (case (u_total_tickets d, u_available_tickets d) of
        (None, Some v) \<Rightarrow> list_ex (\<lambda>e. id_event e = i \<and> total_tickets e < v) (events db)
      | _ \<Rightarrow> False)"
| "exceeds_total db w = False"

subsection \<open>Sample data\<close>

definition ev0 :: event where
  "ev0 = \<lparr>id_event = 1, title_event = ''Gala'', description = None, venue = None, event_date = 0,
          total_tickets = 10, available_tickets = 5, price = 2500, image_url = None,
          status_event = ''upcoming'', created_by = None\<rparr>"

definition bob :: user where
  "bob = \<lparr>id_user = 7, email = ''bob@example.com'', password_hash = ''bcrypt:Correct-horse1'',
          first_name = Some ''Bob'', last_name = None, role = Some ''user'', is_active = True\<rparr>"

definition carol :: user where
  "carol = \<lparr>id_user = 8, email = ''carol@example.com'', password_hash = ''bcrypt:Battery-staple2'',
            first_name = Some ''Carol'', last_name = None, role = Some ''user'', is_active = True\<rparr>"

text \<open>One event with 5 of its 10 tickets left, and the two buyers of the samples.\<close>

definition db0 :: database where
  "db0 = \<lparr>users = [bob, carol], users_id_seq = 8, events = [ev0], events_id_seq = 1,
          tickets = [], sessions = []\<rparr>"

text \<open>The database after Bob has bought 3 tickets of the event.\<close>

definition db_sold :: database where
  "db_sold = committed (snd (purchaseTickets None 0 db0 1 3 7))"

definition buyer :: AuthPayload where
  "buyer = \<lparr>userId = 7, email_auth = ''bob@example.com'', role_auth = ''user''\<rparr>"

definition no_update :: UpdateEventDto where
  "no_update = \<lparr>u_title = None, u_description = None, u_venue = None, u_event_date = None,
                u_total_tickets = None, u_available_tickets = None, u_price = None,
                u_image_url = None, u_status = None\<rparr>"

subsection \<open>Operations on the session ledger\<close>

text \<open>
  The statements that write the \<open>sessions\<close> table, each with the time at which it runs:
  a login or registration records a session, a logout revokes a token, "log out
  everywhere" revokes a user's sessions, an authenticated request touches its session,
  and the hourly job deletes stale rows.
\<close>

datatype ledger_op =
    OpCreate CreateSessionDto
  | OpRevoke string
  | OpRevokeAll int
  | OpTouch string
  | OpCleanup

fun apply_op :: "env \<Rightarrow> int \<times> ledger_op \<Rightarrow> database \<Rightarrow> database" where
  "apply_op E (t, OpCreate dto) db = snd (createSession E t None db dto)"
| "apply_op E (t, OpRevoke token) db = snd (revokeToken E t None db token)"
| "apply_op E (t, OpRevokeAll u) db = snd (revokeAllUserSessions t None db u)"
| "apply_op E (t, OpTouch token) db = snd (updateLastUsed E t None db token)"
| "apply_op E (t, OpCleanup) db = snd (cleanupExpiredSessions t None db)"

text \<open>An operation that records a session under the hash \<open>h\<close>.\<close>

fun records_hash :: "env \<Rightarrow> string \<Rightarrow> int \<times> ledger_op \<Rightarrow> bool" where
  "records_hash E h (t, OpCreate dto) = (hashToken E (s_token_hash dto) = h)"
| "records_hash E h (t, other) = False"

text \<open>The errors of \<open>jwt.verify\<close> that the gate answers with 401.\<close>

definition credential_error :: "verified \<Rightarrow> bool" where
  "credential_error v =
     (case v of Decoded d \<Rightarrow> True
      | Thrown name \<Rightarrow> name = ''TokenExpiredError'' \<or> name = ''JsonWebTokenError'')"

text \<open>Every session recorded for the token is revoked.\<close>

definition all_revoked :: "env \<Rightarrow> string \<Rightarrow> database \<Rightarrow> bool" where
  "all_revoked E token db =
     list_all (\<lambda>s. token_hash s = hashToken E token \<longrightarrow> is_revoked s) (sessions db)"

text \<open>The two header values from which the gate extracts \<open>token\<close>.\<close>

definition presents :: "string \<Rightarrow> string \<Rightarrow> bool" where
  "presents authHeader token =
     (authHeader = ''Bearer '' @ token \<or> (authHeader = token \<and> \<not> startsWith token ''Bearer ''))"

subsection \<open>Sample users, libraries and requests\<close>

definition alice :: user where
  "alice = \<lparr>id_user = 1, email = ''alice@example.com'', password_hash = ''bcrypt:Password123'',
            first_name = Some ''Alice'', last_name = Some ''Liddell'', role = Some ''user'',
            is_active = True\<rparr>"

definition alice_payload :: AuthPayload where
  "alice_payload = \<lparr>userId = 1, email_auth = ''alice@example.com'', role_auth = ''user''\<rparr>"

definition week :: int where
  "week = 7 * 24 * 60 * 60 * 1000"

text \<open>
  Stand-ins for the libraries, enough to run the sample requests: a digest that tags its
  input; a signer that writes the subject and the second of issue into the token, as
  \<open>jsonwebtoken\<close> stamps \<open>iat\<close> in seconds, so that two tokens signed for one user within the
  same second are the same string; a verifier that knows the token signed for Alice in
  second 1 and its lifetime of seven days.
\<close>

definition E0 :: env where
  "E0 = \<lparr>sha256 = (\<lambda>t. ''sha256:'' @ t),
          jwt_sign = (\<lambda>p t. ''jwt:'' @ email_auth p @ '':'' @ show_int (t div 1000)),
          jwt_verify = (\<lambda>t now.
             if t = ''jwt:alice@example.com:1'' then
               (if 1000 + week \<le> now then Thrown ''TokenExpiredError'' else Decoded alice_payload)
             else Thrown ''JsonWebTokenError''),
          bcrypt_hash = (\<lambda>p. ''bcrypt:'' @ p),
          bcrypt_compare = (\<lambda>p h. h = ''bcrypt:'' @ p),
          JWT_EXPIRES_IN = ''7d'',
          ADMIN_REGISTRATION_SECRET = Some ''open sesame''\<rparr>"

definition db_alice :: database where
  "db_alice = \<lparr>users = [alice], users_id_seq = 1, events = [ev0], events_id_seq = 1,
               tickets = [], sessions = []\<rparr>"

definition req0 :: Request where
  "req0 = \<lparr>h_authorization = None, h_user_agent = Some ''curl/8.5.0'', h_x_forwarded_for = None,
           h_x_real_ip = None, h_x_admin_secret = None, r_ip = Some ''10.0.0.7'',
           r_remoteAddress = Some ''10.0.0.7''\<rparr>"

definition alice_login :: LoginBody where
  "alice_login = \<lparr>b_email = Some ''Alice@Example.com'', b_password = Some ''Password123''\<rparr>"

definition alice_token :: string where
  "alice_token = ''jwt:alice@example.com:1''"

text \<open>The database after Alice has logged in at time 1000.\<close>

definition db_login :: database where
  "db_login = snd (POST_login E0 1000 None db_alice alice_login req0)"

definition no_user_update :: UpdateUserDto where
  "no_user_update = \<lparr>uu_email = None, uu_password = None, uu_first_name = None,
                     uu_last_name = None, uu_role = None, uu_is_active = None\<rparr>"

text \<open>The database after an administrator has then deactivated her account.\<close>

definition db_deactivated :: database where
  "db_deactivated = snd (updateUser E0 None db_login 1 (no_user_update\<lparr>uu_is_active := Some False\<rparr>))"

definition admin_body :: RegisterBody where
  "admin_body = \<lparr>rb_email = Some ''root@example.com'', rb_password = Some ''Password123'',
                 rb_first_name = Some ''Rose'', rb_last_name = Some ''Root'',
                 rb_secret = Some ''open sesame''\<rparr>"

text \<open>What happens to the ledger between a logout at 1500 and a request at 62000.\<close>

definition ledger_ops :: "(int \<times> ledger_op) list" where
  "ledger_ops =
     [(1600, OpTouch alice_token),
      (1700, OpCleanup),
      (61800, OpCreate \<lparr>s_user_id = 1, s_token_hash = ''jwt:alice@example.com:61'',
                         s_expires_at = Some (61800 + week), s_device_info = None,
                         s_ip_address = None\<rparr>),
      (61900, OpRevokeAll 1)]"

text \<open>
  The same server configured with \<open>JWT_EXPIRES_IN=90d\<close>. Alice logs in at 1000, logs out
  at 1400 and logs in again at 1800, within the same second; 31 days later the hourly job
  has cleaned the ledger.
\<close>

definition quarter :: int where
  "quarter = 90 * 24 * 60 * 60 * 1000"

definition day31 :: int where
  "day31 = 31 * 24 * 60 * 60 * 1000"

definition E90 :: env where
  "E90 = E0\<lparr>jwt_verify := (\<lambda>t now.
               if t = ''jwt:alice@example.com:1'' then
                 (if 1000 + quarter \<le> now then Thrown ''TokenExpiredError''
                  else Decoded alice_payload)
               else Thrown ''JsonWebTokenError''),
            JWT_EXPIRES_IN := ''90d''\<rparr>"

definition db_login90 :: database where
  "db_login90 = snd (POST_login E90 1000 None db_alice alice_login req0)"

definition db_logout90 :: database where
  "db_logout90 = snd (revokeToken E90 1400 None db_login90 alice_token)"

definition db_relogin90 :: database where
  "db_relogin90 = snd (POST_login E90 1800 None db_logout90 alice_login req0)"

definition db_swept90 :: database where
  "db_swept90 = snd (cleanupExpiredSessions day31 None db_relogin90)"

subsection \<open>Concurrent purchases\<close>

text \<open>
  Requests run concurrently: each \<open>await\<close> of \<open>purchaseTickets\<close> hands control to the
  other requests, and each request has its own pooled connection. The model advances one
  request at a time by one query. A transaction keeps its writes to itself until
  \<open>COMMIT\<close>; \<open>SELECT ... FOR UPDATE\<close> takes the write lock of the rows it returns and
  waits while another transaction holds it; \<open>COMMIT\<close> and \<open>ROLLBACK\<close> release the locks of
  the transaction. The requests are purchases, which write neither \<open>users\<close> nor the ids of
  \<open>events\<close>: the rows an \<open>INSERT\<close> into \<open>tickets\<close> refers to are those of the shared tables.
\<close>

datatype pc =
    AtBegin
  | AtSelect
  | AtUpdate event
  | AtInsert event int
  | AtRefetch
  | AtRollback string
  | Returned "event option"
  | Threw string

record proc =
  p_eventId :: int
  p_quantity :: int
  p_userId :: int
  at :: pc
  new_available :: "int option"
  new_tickets :: "ticket list"
  has_committed :: bool

record world =
  shared :: database
  row_lock :: "int \<Rightarrow> nat option"
  procs :: "proc list"

definition start_proc :: "int \<times> int \<times> int \<Rightarrow> proc" where
  "start_proc r = (case r of (eventId, qty, uid) \<Rightarrow>
     \<lparr>p_eventId = eventId, p_quantity = qty, p_userId = uid, at = AtBegin,
      new_available = None, new_tickets = [], has_committed = False\<rparr>)"

definition start :: "database \<Rightarrow> (int \<times> int \<times> int) list \<Rightarrow> world" where
  "start db reqs = \<lparr>shared = db, row_lock = (\<lambda>i. None), procs = map start_proc reqs\<rparr>"

definition unlock :: "nat \<Rightarrow> (int \<Rightarrow> nat option) \<Rightarrow> (int \<Rightarrow> nat option)" where
  "unlock p l = (\<lambda>i. if l i = Some p then None else l i)"

text \<open>\<open>COMMIT\<close> publishes the writes of the transaction: the row update and the inserted
  tickets.\<close>

definition publish :: "database \<Rightarrow> proc \<Rightarrow> database" where
  "publish d P =
     d\<lparr>events := map (\<lambda>e. if id_event e = p_eventId P
                            then (case new_available P of
                                    None \<Rightarrow> e
                                  | Some n \<Rightarrow> e\<lparr>available_tickets := n\<rparr>)
                            else e) (events d),
       tickets := tickets d @ new_tickets P\<rparr>"

text \<open>
  One query of request \<open>p\<close>; \<open>fault\<close> is the error of the query when it fails. A thrown
  error leads to the \<open>catch\<close> block, whose \<open>ROLLBACK\<close> is the request's next query.
\<close>

definition step :: "int \<Rightarrow> nat \<times> string option \<Rightarrow> world \<Rightarrow> world" where
  "step now a w =
     (case a of (p, fault) \<Rightarrow>
      if \<not> p < length (procs w) then w
      else
        let P = procs w ! p;
            put = (\<lambda>P'. w\<lparr>procs := (procs w)[p := P']\<rparr>)
        in (case at P of
              Returned r \<Rightarrow> w
            | Threw m \<Rightarrow> w
            | AtRollback m \<Rightarrow>
                w\<lparr>row_lock := unlock p (row_lock w),
                  procs := (procs w)[p := P\<lparr>at := Threw m, new_available := None, new_tickets := []\<rparr>]\<rparr>
            | AtBegin \<Rightarrow>
                (case fault of Some m \<Rightarrow> put (P\<lparr>at := AtRollback m\<rparr>)
                 | None \<Rightarrow> put (P\<lparr>at := AtSelect\<rparr>))
            | AtSelect \<Rightarrow>
                (case fault of Some m \<Rightarrow> put (P\<lparr>at := AtRollback m\<rparr>)
                 | None \<Rightarrow>
                    (case select_event (shared w) (p_eventId P) of
                       [] \<Rightarrow> put (P\<lparr>at := AtRollback ''Event not found''\<rparr>)
                     | ev # _ \<Rightarrow>
                         if row_lock w (p_eventId P) \<noteq> None \<and> row_lock w (p_eventId P) \<noteq> Some p
                         then w
                         else
                           let w' = w\<lparr>row_lock := (row_lock w)(p_eventId P := Some p)\<rparr>;
                               put' = (\<lambda>P'. w'\<lparr>procs := (procs w)[p := P']\<rparr>)
                           in if available_tickets ev < p_quantity P then
                                put' (P\<lparr>at := AtRollback
                                  (''Not enough tickets available. Available: ''
                                   @ show_int (available_tickets ev)
                                   @ '', Requested: '' @ show_int (p_quantity P))\<rparr>)
                              else if status_event ev \<noteq> ''upcoming'' \<and> status_event ev \<noteq> ''live'' then
                                put' (P\<lparr>at := AtRollback
                                  (''Cannot purchase tickets for '' @ status_event ev @ '' event'')\<rparr>)
                              else put' (P\<lparr>at := AtUpdate ev\<rparr>)))
            | AtUpdate ev \<Rightarrow>
                (case fault of Some m \<Rightarrow> put (P\<lparr>at := AtRollback m\<rparr>)
                 | None \<Rightarrow>
                    let newAvailable = available_tickets ev - p_quantity P
                    in put (P\<lparr>at := AtInsert ev 0, new_available := Some newAvailable\<rparr>))
            | AtInsert ev i \<Rightarrow>
                (case fault of Some m \<Rightarrow> put (P\<lparr>at := AtRollback m\<rparr>)
                 | None \<Rightarrow>
                    if i < p_quantity P then
                      (case tickets_violation (shared w)
                              (ticket_row now ev (p_eventId P) (p_userId P) i) of
                         Some m \<Rightarrow> put (P\<lparr>at := AtRollback m\<rparr>)
                       | None \<Rightarrow>
                           put (P\<lparr>at := AtInsert ev (i + 1),
                                  new_tickets := new_tickets P
                                    @ [ticket_row now ev (p_eventId P) (p_userId P) i]\<rparr>))
                    else
                      w\<lparr>shared := publish (shared w) P,
                        row_lock := unlock p (row_lock w),
                        procs := (procs w)[p := P\<lparr>at := AtRefetch, new_available := None,
                                                  new_tickets := [], has_committed := True\<rparr>]\<rparr>)
            | AtRefetch \<Rightarrow>
                (case fault of Some m \<Rightarrow> put (P\<lparr>at := AtRollback m\<rparr>)
                 | None \<Rightarrow> put (P\<lparr>at := Returned (getEventById (shared w) (p_eventId P))\<rparr>))))"

definition exec :: "int \<Rightarrow> (nat \<times> string option) list \<Rightarrow> world \<Rightarrow> world" where
  "exec now schedule w = fold (step now) schedule w"

text \<open>The inventory of an event, the tickets issued for it, and the units bought by the
  requests whose transaction is committed.\<close>

definition avail :: "database \<Rightarrow> int \<Rightarrow> int" where
  "avail db i = (case getEventById db i of None \<Rightarrow> 0 | Some e \<Rightarrow> available_tickets e)"


definition bought :: "world \<Rightarrow> int \<Rightarrow> int" where
  "bought w i =
     sum_list (map (\<lambda>P. if has_committed P \<and> p_eventId P = i then p_quantity P else 0) (procs w))"

text \<open>
  The invariant of the concurrent runs, for an event \<open>i\<close>: the inventory is not negative,
  inventory plus issued tickets is constant, the committed requests bought exactly what
  the inventory lost, and a request between its \<open>SELECT\<close> and its \<open>COMMIT\<close> holds the lock
  of its event's row and has read the inventory the table still shows.
\<close>

definition held :: "world \<Rightarrow> proc \<Rightarrow> event \<Rightarrow> bool" where
  "held w P ev =
     (getEventById (shared w) (p_eventId P) \<noteq> None \<and>
      avail (shared w) (p_eventId P) = available_tickets ev \<and>
      p_quantity P \<le> available_tickets ev)"

definition proc_ok :: "world \<Rightarrow> nat \<Rightarrow> proc \<Rightarrow> bool" where
  "proc_ok w p P =
     (0 \<le> p_quantity P \<and>
      (case at P of
         AtBegin \<Rightarrow> \<not> has_committed P \<and> new_tickets P = []
       | AtSelect \<Rightarrow> \<not> has_committed P \<and> new_tickets P = []
       | AtUpdate ev \<Rightarrow>
           \<not> has_committed P \<and> new_tickets P = [] \<and>
           row_lock w (p_eventId P) = Some p \<and> held w P ev
       | AtInsert ev i \<Rightarrow>
           \<not> has_committed P \<and> row_lock w (p_eventId P) = Some p \<and> held w P ev \<and>
           0 \<le> i \<and> i \<le> p_quantity P \<and> int (length (new_tickets P)) = i \<and>
           list_all (\<lambda>t. event_id t = p_eventId P) (new_tickets P) \<and>
           new_available P = Some (available_tickets ev - p_quantity P)
       | AtRefetch \<Rightarrow> has_committed P
       | AtRollback m \<Rightarrow> True
       | Returned r \<Rightarrow> has_committed P
       | Threw m \<Rightarrow> True))"




section \<open>Properties\<close>

subsection \<open>The purchase transaction\<close>

declare insert_tickets.simps [simp del]

lemma fault_at_None [simp]: "fault_at None n = None"
  by (simp add: fault_at_def)

lemma client_eq: "c = \<lparr>committed = committed c, txn = txn c\<rparr>"
  by (cases c) simp

lemma ROLLBACK_connect: "committed c = db \<Longrightarrow> ROLLBACK c = connect db"
  by (cases c) (simp add: ROLLBACK_def connect_def)

lemma ROLLBACK_idle: "txn c = None \<Longrightarrow> ROLLBACK c = c"
  by (cases c) (simp add: ROLLBACK_def)

text \<open>What an \<open>INSERT\<close> into \<open>tickets\<close> is checked against: the users and the ids of the
  events.\<close>

lemma tickets_violation_cong:
  assumes "users d = users d'" and "map id_event (events d) = map id_event (events d')"
  shows "tickets_violation d t = tickets_violation d' t"
proof -
  from assms(2) have "set (map id_event (events d)) = set (map id_event (events d'))" by simp
  with assms(1) show ?thesis unfolding tickets_violation_def by simp
qed

lemma tickets_violation_tickets [simp]:
  "tickets_violation (d\<lparr>tickets := ts\<rparr>) t = tickets_violation d t"
  by (rule tickets_violation_cong) simp_all

lemma tickets_violation_available [simp]:
  "tickets_violation
     (d\<lparr>events := map (\<lambda>e. if id_event e = i then e\<lparr>available_tickets := n\<rparr> else e) (events d)\<rparr>) t
   = tickets_violation d t"
proof (rule tickets_violation_cong)
  show "map id_event (events (d\<lparr>events := map (\<lambda>e. if id_event e = i
          then e\<lparr>available_tickets := n\<rparr> else e) (events d)\<rparr>)) = map id_event (events d)"
    by (induction "events d") (simp_all add: o_def)
qed simp

lemma insert_tickets_committed:
  "insert_tickets f now ev eid uid qty i c = (r, c') \<Longrightarrow> txn c \<noteq> None \<Longrightarrow>
     committed c' = committed c \<and> txn c' \<noteq> None"
proof (induction f now ev eid uid qty i c rule: insert_tickets.induct)
  case (1 f now ev eid uid qty i c)
  let ?row = "ticket_row now ev eid uid i"
  show ?case
  proof (cases "i < qty \<and> fault_at f (3 + nat i) = None \<and> tickets_violation (view c) ?row = None")
    case False
    with "1.prems" show ?thesis
      by (auto simp add: insert_tickets.simps split: option.splits if_splits)
  next
    case True
    let ?c = "store ((view c)\<lparr>tickets := tickets (view c) @ [?row]\<rparr>) c"
    from "1.prems"(2) have s: "committed ?c = committed c \<and> txn ?c \<noteq> None"
      by (auto simp: store_def)
    from True "1.prems"(1) have "insert_tickets f now ev eid uid qty (i + 1) ?c = (r, c')"
      by (simp add: insert_tickets.simps)
    from "1.IH"[OF _ _ _ this] True s show ?thesis by simp
  qed
qed

lemma insert_tickets_no_fault:
  "insert_tickets f now ev eid uid qty i c = (None, c') \<Longrightarrow>
     insert_tickets None now ev eid uid qty i c = (None, c')"
proof (induction f now ev eid uid qty i c rule: insert_tickets.induct)
  case (1 f now ev eid uid qty i c)
  let ?row = "ticket_row now ev eid uid i"
  show ?case
  proof (cases "i < qty")
    case False
    with "1.prems" show ?thesis by (simp add: insert_tickets.simps)
  next
    case lt: True
    from lt "1.prems" have nf: "fault_at f (3 + nat i) = None"
      and nv: "tickets_violation (view c) ?row = None"
      by (auto simp add: insert_tickets.simps split: option.splits)
    let ?c = "store ((view c)\<lparr>tickets := tickets (view c) @ [?row]\<rparr>) c"
    from lt nf nv "1.prems" have "insert_tickets f now ev eid uid qty (i + 1) ?c = (None, c')"
      by (simp add: insert_tickets.simps)
    from "1.IH"[OF lt nf nv this] lt nv show ?thesis
      by (subst insert_tickets.simps) simp
  qed
qed

text \<open>The loop without faults: it appends the rows of all its rounds when the server
  takes each of them, and only then.\<close>

lemma insert_tickets_all:
  "txn c = Some w \<Longrightarrow>
   list_all (\<lambda>j. tickets_violation w (ticket_row now ev eid uid j) = None) [i..qty - 1] \<Longrightarrow>
   insert_tickets None now ev eid uid qty i c =
     (None, c\<lparr>txn := Some (w\<lparr>tickets := tickets w @ map (ticket_row now ev eid uid) [i..qty - 1]\<rparr>)\<rparr>)"
proof (induction "nat (qty - i)" arbitrary: i c w)
  case 0
  then have "\<not> i < qty" by simp
  then have "[i..qty - 1] = []" by simp
  with 0 \<open>\<not> i < qty\<close> show ?case by (simp add: insert_tickets.simps)
next
  case (Suc n)
  then have lt: "i < qty" by simp
  let ?row = "ticket_row now ev eid uid i"
  let ?w = "w\<lparr>tickets := tickets w @ [?row]\<rparr>"
  let ?c = "store ((view c)\<lparr>tickets := tickets (view c) @ [?row]\<rparr>) c"
  have c: "?c = c\<lparr>txn := Some ?w\<rparr>"
    using Suc.prems(1) by (simp add: store_def view_def)
  have n: "n = nat (qty - (i + 1))" using Suc.hyps(2) by simp
  have up: "[i..qty - 1] = i # [i + 1..qty - 1]" using lt by (simp add: upto_rec1)
  from Suc.prems(2) have nv: "tickets_violation (view c) ?row = None"
    and rest: "list_all (\<lambda>j. tickets_violation ?w (ticket_row now ev eid uid j) = None)
                 [i + 1..qty - 1]"
    using Suc.prems(1) by (simp_all add: up view_def)
  have "insert_tickets None now ev eid uid qty i c = insert_tickets None now ev eid uid qty (i + 1) ?c"
    using lt nv by (subst insert_tickets.simps) simp
  also have "\<dots> = (None, ?c\<lparr>txn := Some (?w\<lparr>tickets := tickets ?w
            @ map (ticket_row now ev eid uid) [i + 1..qty - 1]\<rparr>)\<rparr>)"
    by (rule Suc.hyps(1)[OF n _ rest]) (simp add: c)
  finally show ?case by (simp add: c up)
qed

lemma insert_tickets_accepted:
  "insert_tickets None now ev eid uid qty i c = (None, c') \<Longrightarrow> txn c = Some w \<Longrightarrow>
   list_all (\<lambda>j. tickets_violation w (ticket_row now ev eid uid j) = None) [i..qty - 1]"
proof (induction "nat (qty - i)" arbitrary: i c w)
  case 0
  then have "[i..qty - 1] = []" by simp
  then show ?case by simp
next
  case (Suc n)
  then have lt: "i < qty" by simp
  let ?row = "ticket_row now ev eid uid i"
  let ?w = "w\<lparr>tickets := tickets w @ [?row]\<rparr>"
  let ?c = "store ((view c)\<lparr>tickets := tickets (view c) @ [?row]\<rparr>) c"
  have c: "?c = c\<lparr>txn := Some ?w\<rparr>"
    using Suc.prems(2) by (simp add: store_def view_def)
  have n: "n = nat (qty - (i + 1))" using Suc.hyps(2) by simp
  have up: "[i..qty - 1] = i # [i + 1..qty - 1]" using lt by (simp add: upto_rec1)
  from lt Suc.prems(1) have nv: "tickets_violation (view c) ?row = None"
    by (auto simp add: insert_tickets.simps split: option.splits)
  with lt Suc.prems(1) have "insert_tickets None now ev eid uid qty (i + 1) ?c = (None, c')"
    by (simp add: insert_tickets.simps)
  from Suc.hyps(1)[OF n this, of ?w]
  have "list_all (\<lambda>j. tickets_violation ?w (ticket_row now ev eid uid j) = None) [i + 1..qty - 1]"
    by (simp add: c)
  with nv Suc.prems(2) show ?case by (simp add: up view_def)
qed

text \<open>The run of the \<open>try\<close> block: it throws with the committed tables untouched, or it
  is the run without faults, whose result the caller sees unless the last read throws.\<close>

lemma purchase_try_cases:
  assumes "purchase_try f now (connect db) eid qty uid = (r, c)"
  shows "(\<exists>m. r = Inl m \<and> committed c = db) \<or>
         (purchase_try None now (connect db) eid qty uid = (Inr (getEventById (committed c) eid), c) \<and>
          (r = Inr (getEventById (committed c) eid) \<or>
           (\<exists>m. r = Inl m \<and> fault_at f (4 + nat qty) = Some m)))"
  using assms
  apply (simp add: purchase_try_def Let_def split: option.splits list.splits if_splits sum.splits prod.splits)
  apply (auto simp: connect_def BEGIN_def view_def store_def COMMIT_def dest: insert_tickets_committed insert_tickets_no_fault)
  done

text \<open>A \<open>try\<close> block that returns has committed; one that throws between \<open>BEGIN\<close> and
  \<open>COMMIT\<close> leaves its transaction open, for the \<open>catch\<close> block to end.\<close>

lemma purchase_try_returned:
  assumes "purchase_try f now (connect db) eid qty uid = (Inr r, c)"
  shows "txn c = None"
  using assms
  apply (simp add: purchase_try_def Let_def split: option.splits list.splits if_splits sum.splits prod.splits)
  apply (auto simp: connect_def BEGIN_def view_def store_def COMMIT_def split: option.splits)
  done

lemma purchase_try_thrown:
  assumes "purchase_try f now (connect db) eid qty uid = (Inl m, c)"
    and "fault_at f 0 = None" and "fault_at f (4 + nat qty) = None"
  shows "txn c \<noteq> None"
  using assms
  apply (simp add: purchase_try_def Let_def split: option.splits list.splits if_splits sum.splits prod.splits)
  apply (auto simp: connect_def BEGIN_def view_def store_def dest: insert_tickets_committed)
  done

lemma purchase_failure:
  assumes "purchaseTickets f now db eid qty uid = (Inl m, c)"
  shows "c = connect db \<or>
         (fault_at f (4 + nat qty) = Some m \<and>
          (\<exists>ev. purchaseTickets None now db eid qty uid = (Inr ev, c)))"
proof -
  obtain r c' where pt: "purchase_try f now (connect db) eid qty uid = (r, c')"
    by (cases "purchase_try f now (connect db) eid qty uid")
  from assms pt have r: "r = Inl m" and d: "c = ROLLBACK c'"
    by (auto simp: purchaseTickets_def release_def split: sum.splits)
  from purchase_try_cases[OF pt] show ?thesis
  proof
    assume "\<exists>m. r = Inl m \<and> committed c' = db"
    then have "ROLLBACK c' = connect db" by (auto intro: ROLLBACK_connect)
    with d show ?thesis by simp
  next
    assume a: "purchase_try None now (connect db) eid qty uid
                 = (Inr (getEventById (committed c') eid), c') \<and>
               (r = Inr (getEventById (committed c') eid) \<or>
                (\<exists>m. r = Inl m \<and> fault_at f (4 + nat qty) = Some m))"
    then have "txn c' = None" by (auto dest: purchase_try_returned)
    then have "c = c'" using d by (simp add: ROLLBACK_idle)
    with a r show ?thesis
      by (auto simp: purchaseTickets_def release_def)
  qed
qed

lemma purchase_result_no_fault:
  assumes "purchaseTickets f now db eid qty uid = (Inr r, c)"
  shows "purchaseTickets None now db eid qty uid = (Inr r, c)"
proof -
  obtain x c' where pt: "purchase_try f now (connect db) eid qty uid = (x, c')"
    by (cases "purchase_try f now (connect db) eid qty uid")
  from assms pt have r: "x = Inr r" and d: "c = c'"
    by (auto simp: purchaseTickets_def release_def split: sum.splits)
  from purchase_try_cases[OF pt] r d show ?thesis
    by (auto simp: purchaseTickets_def release_def)
qed

text \<open>Whatever happens, the connection goes back to the pool without a transaction.\<close>

lemma purchaseTickets_ends_transaction:
  "txn (snd (purchaseTickets f now db eid qty uid)) = None"
proof -
  obtain r c' where pt: "purchase_try f now (connect db) eid qty uid = (r, c')"
    by (cases "purchase_try f now (connect db) eid qty uid")
  show ?thesis
  proof (cases r)
    case (Inl m)
    with pt show ?thesis by (simp add: purchaseTickets_def release_def ROLLBACK_def)
  next
    case (Inr x)
    with pt purchase_try_returned[of f now db eid qty uid x c'] show ?thesis
      by (simp add: purchaseTickets_def release_def)
  qed
qed

lemma select_event_map:
  "(\<And>e. id_event (g e) = id_event e) \<Longrightarrow>
   filter (\<lambda>e. id_event e = i) (map g rows) = map g (filter (\<lambda>e. id_event e = i) rows)"
  by (induction rows) auto

lemma getEventById_map:
  assumes "\<And>e. id_event (g e) = id_event e"
  shows "getEventById (db\<lparr>events := map g (events db)\<rparr>) i = map_option g (getEventById db i)"
  by (simp add: getEventById_def select_event_def select_event_map[OF assms] split: list.splits)

text \<open>What a purchase without faults does, read off the code path by path.\<close>

lemma purchase_None_cases:
  assumes "purchaseTickets None now db eid qty uid = (r, c)"
  shows "((\<exists>m. r = Inl m) \<and> c = connect db) \<or>
         (\<exists>ev rest db'. select_event db eid = ev # rest \<and> qty \<le> available_tickets ev \<and>
            (status_event ev = ''upcoming'' \<or> status_event ev = ''live'') \<and>
            list_all (\<lambda>j. tickets_violation db (ticket_row now ev eid uid j) = None) [0..qty - 1] \<and>
            db' = db\<lparr>events := map (\<lambda>e. if id_event e = eid
                          then e\<lparr>available_tickets := available_tickets ev - qty\<rparr> else e) (events db),
                     tickets := tickets db @ map (ticket_row now ev eid uid) [0..qty - 1]\<rparr> \<and>
            c = connect db' \<and> r = Inr (getEventById db' eid))"
proof (cases r)
  case (Inl m)
  from purchase_failure[OF assms[unfolded Inl]] Inl show ?thesis by auto
next
  case (Inr x)
  obtain y c' where pt: "purchase_try None now (connect db) eid qty uid = (y, c')"
    by (cases "purchase_try None now (connect db) eid qty uid")
  from assms Inr pt have y: "y = Inr x" and cc: "c = c'"
    by (auto simp: purchaseTickets_def release_def split: sum.splits)
  have c1: "BEGIN (connect db) = \<lparr>committed = db, txn = Some db\<rparr>"
    by (simp add: BEGIN_def connect_def)
  have v1: "view \<lparr>committed = db, txn = Some db\<rparr> = db" by (simp add: view_def)
  from pt y obtain ev rest where sel: "select_event db eid = ev # rest"
    by (cases "select_event db eid") (auto simp: purchase_try_def c1 v1)
  from pt y sel have enough: "qty \<le> available_tickets ev"
    and st: "status_event ev = ''upcoming'' \<or> status_event ev = ''live''"
    by (auto simp: purchase_try_def Let_def c1 v1 split: if_splits)
  let ?n = "available_tickets ev - qty"
  let ?s = "\<lambda>e. e\<lparr>available_tickets := ?n\<rparr>"
  let ?g = "\<lambda>e. if id_event e = eid then ?s e else e"
  let ?d2 = "db\<lparr>events := map ?g (events db)\<rparr>"
  let ?d3 = "?d2\<lparr>tickets := tickets ?d2 @ map (ticket_row now ev eid uid) [0..qty - 1]\<rparr>"
  let ?c2 = "\<lparr>committed = db, txn = Some ?d2\<rparr>"
  from pt y sel enough st obtain p where "update_events (\<lambda>e. id_event e = eid) ?s (events db) = Inr p"
    by (cases "update_events (\<lambda>e. id_event e = eid) ?s (events db)")
       (auto simp: purchase_try_def Let_def c1 v1)
  then have upd: "update_events (\<lambda>e. id_event e = eid) ?s (events db)
      = Inr (map ?g (events db), snd p)"
    by (cases p) (auto simp: update_events_def Let_def split: if_splits)
  have c2: "store ?d2 \<lparr>committed = db, txn = Some db\<rparr> = ?c2"
    by (simp add: store_def)
  obtain z c3 where it: "insert_tickets None now ev eid uid qty 0 ?c2 = (z, c3)"
    by (cases "insert_tickets None now ev eid uid qty 0 ?c2")
  from pt y sel enough st have z: "z = None" and c': "c' = COMMIT c3"
      and x: "x = getEventById (committed (COMMIT c3)) eid"
    using it by (auto simp: purchase_try_def Let_def c1 v1 upd c2 split: option.splits)
  have acc: "list_all (\<lambda>j. tickets_violation ?d2 (ticket_row now ev eid uid j) = None) [0..qty - 1]"
    by (rule insert_tickets_accepted[OF it[unfolded z]]) simp
  then have acc': "list_all (\<lambda>j. tickets_violation db (ticket_row now ev eid uid j) = None) [0..qty - 1]"
    by simp
  have "insert_tickets None now ev eid uid qty 0 ?c2 = (None, \<lparr>committed = db, txn = Some ?d3\<rparr>)"
    using insert_tickets_all[of ?c2 ?d2 now ev eid uid 0 qty, OF _ acc] by simp
  with it have c3: "c3 = \<lparr>committed = db, txn = Some ?d3\<rparr>" by simp
  have "c = connect ?d3" using cc c' c3 by (simp add: COMMIT_def connect_def)
  moreover have "r = Inr (getEventById ?d3 eid)" using Inr x c3 by (simp add: COMMIT_def)
  ultimately show ?thesis using sel enough st acc' by auto
qed

lemma getEventById_SomeD:
  assumes "getEventById db i = Some e"
  shows "id_event e = i" and "e \<in> set (events db)"
proof -
  from assms obtain rest where sel: "filter (\<lambda>e. id_event e = i) (events db) = e # rest"
    by (auto simp: getEventById_def select_event_def split: list.splits)
  have "e \<in> set (filter (\<lambda>e. id_event e = i) (events db))"
    by (simp add: sel)
  then show "id_event e = i" and "e \<in> set (events db)" by simp_all
qed

lemma lookup_after_purchase:
  assumes "getEventById db eid = Some ev"
  shows "getEventById
           (db\<lparr>events := map (\<lambda>e. if id_event e = eid then e\<lparr>available_tickets := n\<rparr> else e)
                           (events db),
               tickets := ts\<rparr>) eid
         = Some (ev\<lparr>available_tickets := n\<rparr>)"
proof -
  let ?g = "\<lambda>e. if id_event e = eid then e\<lparr>available_tickets := n\<rparr> else e"
  have ide: "id_event ev = eid" by (rule getEventById_SomeD(1)[OF assms])
  have "getEventById (db\<lparr>events := map ?g (events db)\<rparr>) eid = Some (ev\<lparr>available_tickets := n\<rparr>)"
    using getEventById_map[of ?g db eid] assms ide by simp
  then show ?thesis
    by (simp add: getEventById_def select_event_def)
qed

text \<open>
  When a purchase goes through: the event exists, has enough tickets and is upcoming or
  live, the table satisfies its \<open>CHECK\<close> constraints, and the server takes every ticket row.
\<close>

lemma purchase_success:
  assumes ev: "getEventById db eid = Some ev"
    and q: "1 \<le> qty" "qty \<le> available_tickets ev"
    and st: "status_event ev = ''upcoming'' \<or> status_event ev = ''live''"
    and chk: "list_all events_check (events db)"
    and acc: "list_all (\<lambda>j. tickets_violation db (ticket_row now ev eid uid j) = None) [0..qty - 1]"
  shows "purchaseTickets None now db eid qty uid =
     (Inr (Some (ev\<lparr>available_tickets := available_tickets ev - qty\<rparr>)),
      connect (db\<lparr>events := map (\<lambda>e. if id_event e = eid
                             then e\<lparr>available_tickets := available_tickets ev - qty\<rparr> else e) (events db),
         tickets := tickets db @ map (ticket_row now ev eid uid) [0..qty - 1]\<rparr>))"
proof -
  let ?n = "available_tickets ev - qty"
  let ?s = "\<lambda>e. e\<lparr>available_tickets := ?n\<rparr>"
  let ?g = "\<lambda>e. if id_event e = eid then ?s e else e"
  let ?d2 = "db\<lparr>events := map ?g (events db)\<rparr>"
  let ?d3 = "?d2\<lparr>tickets := tickets ?d2 @ map (ticket_row now ev eid uid) [0..qty - 1]\<rparr>"
  from ev obtain rest where sel: "select_event db eid = ev # rest"
    by (auto simp: getEventById_def split: list.splits)
  from sel have "ev \<in> set (filter (\<lambda>e. id_event e = eid) (events db))"
    by (simp add: select_event_def)
  then have ide: "id_event ev = eid" by simp
  have c1: "BEGIN (connect db) = \<lparr>committed = db, txn = Some db\<rparr>"
    by (simp add: BEGIN_def connect_def)
  have v1: "view \<lparr>committed = db, txn = Some db\<rparr> = db" by (simp add: view_def)
  have "list_all events_check (map ?s (filter (\<lambda>e. id_event e = eid) (events db)))"
    using chk q by (auto simp: list_all_iff events_check_def)
  then have upd: "update_events (\<lambda>e. id_event e = eid) ?s (events db)
      = Inr (map ?g (events db), map ?s (filter (\<lambda>e. id_event e = eid) (events db)))"
    by (simp add: update_events_def)
  have c2: "store ?d2 \<lparr>committed = db, txn = Some db\<rparr> = \<lparr>committed = db, txn = Some ?d2\<rparr>"
    by (simp add: store_def)
  have acc2: "list_all (\<lambda>j. tickets_violation ?d2 (ticket_row now ev eid uid j) = None) [0..qty - 1]"
    using acc by simp
  have ins: "insert_tickets None now ev eid uid qty 0 \<lparr>committed = db, txn = Some ?d2\<rparr>
      = (None, \<lparr>committed = db, txn = Some ?d3\<rparr>)"
    using insert_tickets_all[of "\<lparr>committed = db, txn = Some ?d2\<rparr>" ?d2 now ev eid uid 0 qty, OF _ acc2]
    by simp
  have "getEventById ?d2 eid = Some (?s ev)"
    using getEventById_map[of ?g db eid] ev ide by simp
  then have g: "getEventById ?d3 eid = Some (?s ev)"
    by (simp add: getEventById_def select_event_def)
  have "purchase_try None now (connect db) eid qty uid
      = (Inr (Some (?s ev)), \<lparr>committed = ?d3, txn = None\<rparr>)"
    using q st g[simplified]
    by (auto simp add: purchase_try_def Let_def c1 v1 sel upd c2 ins COMMIT_def)
  then show ?thesis
    by (simp add: purchaseTickets_def release_def connect_def)
qed

text \<open>The loop stops at the first row the server refuses.\<close>

lemma insert_tickets_refused:
  assumes "txn c = Some w" and "i \<le> j" and "j < qty"
    and "list_all (\<lambda>k. tickets_violation w (ticket_row now ev eid uid k) = None) [i..j - 1]"
    and "tickets_violation w (ticket_row now ev eid uid j) = Some m"
  shows "fst (insert_tickets None now ev eid uid qty i c) = Some m"
  using assms
proof (induction "nat (j - i)" arbitrary: i c w)
  case 0
  then have "i = j" by simp
  with 0 show ?case by (subst insert_tickets.simps) (simp add: view_def)
next
  case (Suc n)
  then have lt: "i < j" by simp
  let ?row = "ticket_row now ev eid uid i"
  let ?w = "w\<lparr>tickets := tickets w @ [?row]\<rparr>"
  let ?c = "store ((view c)\<lparr>tickets := tickets (view c) @ [?row]\<rparr>) c"
  have c: "?c = c\<lparr>txn := Some ?w\<rparr>"
    using Suc.prems(1) by (simp add: store_def view_def)
  have n: "n = nat (j - (i + 1))" using Suc.hyps(2) by simp
  have up: "[i..j - 1] = i # [i + 1..j - 1]" using lt by (simp add: upto_rec1)
  from Suc.prems(4) have nv: "tickets_violation (view c) ?row = None"
    and rest: "list_all (\<lambda>k. tickets_violation ?w (ticket_row now ev eid uid k) = None)
                 [i + 1..j - 1]"
    using Suc.prems(1) by (simp_all add: up view_def)
  have "insert_tickets None now ev eid uid qty i c = insert_tickets None now ev eid uid qty (i + 1) ?c"
    using lt Suc.prems(3) nv by (subst insert_tickets.simps) simp
  moreover have "fst (insert_tickets None now ev eid uid qty (i + 1) ?c) = Some m"
  proof (rule Suc.hyps(1)[OF n _ _ Suc.prems(3) rest])
    show "txn ?c = Some ?w" by (simp add: c)
    show "i + 1 \<le> j" using lt by simp
    show "tickets_violation ?w (ticket_row now ev eid uid j) = Some m"
      using Suc.prems(5) by simp
  qed
  ultimately show ?case by simp
qed

lemma purchase_refused:
  assumes ev: "getEventById db eid = Some ev"
    and q: "qty \<le> available_tickets ev"
    and st: "status_event ev = ''upcoming'' \<or> status_event ev = ''live''"
    and chk: "list_all events_check (events db)"
    and j: "0 \<le> j" "j < qty"
    and first: "list_all (\<lambda>k. tickets_violation db (ticket_row now ev eid uid k) = None) [0..j - 1]"
    and viol: "tickets_violation db (ticket_row now ev eid uid j) = Some m"
  shows "purchaseTickets None now db eid qty uid = (Inl m, connect db)"
proof -
  let ?n = "available_tickets ev - qty"
  let ?s = "\<lambda>e. e\<lparr>available_tickets := ?n\<rparr>"
  let ?g = "\<lambda>e. if id_event e = eid then ?s e else e"
  let ?d2 = "db\<lparr>events := map ?g (events db)\<rparr>"
  let ?c2 = "\<lparr>committed = db, txn = Some ?d2\<rparr>"
  from ev obtain rest where sel: "select_event db eid = ev # rest"
    by (auto simp: getEventById_def split: list.splits)
  have c1: "BEGIN (connect db) = \<lparr>committed = db, txn = Some db\<rparr>"
    by (simp add: BEGIN_def connect_def)
  have v1: "view \<lparr>committed = db, txn = Some db\<rparr> = db" by (simp add: view_def)
  have "list_all events_check (map ?s (filter (\<lambda>e. id_event e = eid) (events db)))"
    using chk q j by (auto simp: list_all_iff events_check_def)
  then have upd: "update_events (\<lambda>e. id_event e = eid) ?s (events db)
      = Inr (map ?g (events db), map ?s (filter (\<lambda>e. id_event e = eid) (events db)))"
    by (simp add: update_events_def)
  have c2: "store ?d2 \<lparr>committed = db, txn = Some db\<rparr> = ?c2"
    by (simp add: store_def)
  obtain z c3 where it: "insert_tickets None now ev eid uid qty 0 ?c2 = (z, c3)"
    by (cases "insert_tickets None now ev eid uid qty 0 ?c2")
  have "fst (insert_tickets None now ev eid uid qty 0 ?c2) = Some m"
    by (rule insert_tickets_refused[where j = j and w = ?d2]) (use j first viol in simp_all)
  with it have z: "z = Some m" by simp
  from insert_tickets_committed[OF it] have "committed c3 = db" by simp
  then have "ROLLBACK c3 = connect db" by (rule ROLLBACK_connect)
  moreover have "purchase_try None now (connect db) eid qty uid = (Inl m, c3)"
    using q st by (auto simp add: purchase_try_def Let_def c1 v1 sel upd c2 it z)
  ultimately show ?thesis
    by (simp add: purchaseTickets_def release_def)
qed




text \<open>
  When the server takes every ticket row of a purchase: the buyer is a user, and the
  longest title, that of the last ticket, fits the column.
\<close>

lemma length_show_nat:
  "length (show_nat n) = (if n < 10 then 1 else Suc (length (show_nat (n div 10))))"
  by (subst show_nat.simps) simp

lemma length_show_nat_mono: "m \<le> n \<Longrightarrow> length (show_nat m) \<le> length (show_nat n)"
proof (induction n arbitrary: m rule: show_nat.induct)
  case (1 n)
  show ?case
  proof (cases "n < 10")
    case True
    with "1.prems" have "m < 10" by simp
    with True length_show_nat[of m] length_show_nat[of n] show ?thesis by simp
  next
    case False
    show ?thesis
    proof (cases "m < 10")
      case True
      with False length_show_nat[of m] length_show_nat[of n] show ?thesis by simp
    next
      case mf: False
      from "1.prems" have "m div 10 \<le> n div 10" by (rule div_le_mono)
      from "1.IH"[OF False this] length_show_nat[of m] length_show_nat[of n] False mf
      show ?thesis by simp
    qed
  qed
qed

lemma ticket_rows_accepted:
  assumes ev: "getEventById db eid = Some ev"
    and buyer: "uid \<in> set (map id_user (users db))"
    and len: "length (title_event ev) + 10 + length (show_int qty) \<le> 255"
  shows "list_all (\<lambda>j. tickets_violation db (ticket_row now ev eid uid j) = None) [0..qty - 1]"
proof -
  have "tickets_violation db (ticket_row now ev eid uid j) = None" if j: "0 \<le> j" "j < qty" for j
  proof -
    from j have "nat (j + 1) \<le> nat qty" by simp
    from length_show_nat_mono[OF this] j
    have "length (show_int (j + 1)) \<le> length (show_int qty)"
      by (simp add: show_int_def)
    with len have l: "length (title_ticket (ticket_row now ev eid uid j)) \<le> 255"
      by (simp add: ticket_row_def)
    have e: "eid \<in> set (map id_event (events db))"
      using getEventById_SomeD[OF ev] by force
    from l e buyer show ?thesis
      by (simp add: tickets_violation_def tickets_check_def ticket_row_def)
  qed
  then show ?thesis by (simp add: list_all_iff)
qed

lemma purchase_goes_through:
  assumes "getEventById db eid = Some ev"
    and "1 \<le> qty" and "qty \<le> available_tickets ev"
    and "status_event ev = ''upcoming'' \<or> status_event ev = ''live''"
    and "list_all events_check (events db)"
    and "uid \<in> set (map id_user (users db))"
    and "length (title_event ev) + 10 + length (show_int qty) \<le> 255"
  shows "purchaseTickets None now db eid qty uid =
     (Inr (Some (ev\<lparr>available_tickets := available_tickets ev - qty\<rparr>)),
      connect (db\<lparr>events := map (\<lambda>e. if id_event e = eid
                             then e\<lparr>available_tickets := available_tickets ev - qty\<rparr> else e) (events db),
         tickets := tickets db @ map (ticket_row now ev eid uid) [0..qty - 1]\<rparr>))"
  by (rule purchase_success[OF assms(1-5) ticket_rows_accepted[OF assms(1,6,7)]])

subsection \<open>The inventory invariant\<close>

lemma fold_assign_id [simp]: "id_event (fold assign us e) = id_event e"
proof (induction us arbitrary: e)
  case Nil
  show ?case by simp
next
  case (Cons a us)
  show ?case by (cases a) (simp_all add: Cons.IH)
qed


lemma fold_assign_plain:
  "list_all plain us \<Longrightarrow>
     total_tickets (fold assign us e) = total_tickets e \<and>
     available_tickets (fold assign us e) = available_tickets e"
proof (induction us arbitrary: e)
  case Nil
  show ?case by simp
next
  case (Cons a us)
  then have "plain a" and "list_all plain us" by simp_all
  from \<open>plain a\<close> have "total_tickets (assign a e) = total_tickets e \<and>
      available_tickets (assign a e) = available_tickets e"
    by (cases a) (simp_all add: plain_def)
  with Cons.IH[OF \<open>list_all plain us\<close>, of "assign a e"] show ?case by simp
qed

lemma head_plain:
  "list_all plain (clause t SetTitle @ clause d SetDescription @ clause v SetVenue
                   @ clause dt SetEventDate)"
  by (simp add: clause_def plain_def split: option.splits)

lemma tail_plain:
  "list_all plain (clause p SetPrice @ clause im SetImageUrl @ clause st SetStatus)"
  by (simp add: clause_def plain_def split: option.splits)

lemma update_events_inventory:
  assumes "update_events w s rows = Inr (rows', ch)"
    and "list_all inventory_ok rows"
    and "\<And>e. e \<in> set rows \<Longrightarrow> w e \<Longrightarrow> events_check (s e) \<Longrightarrow> inventory_ok (s e)"
  shows "list_all inventory_ok rows'"
proof -
  from assms(1) have chk: "list_all events_check (map s (filter w rows))"
    and r: "rows' = map (\<lambda>e. if w e then s e else e) rows"
    by (auto simp: update_events_def Let_def split: if_splits)
  show ?thesis
    unfolding r using assms(2,3) chk by (auto simp: list_all_iff)
qed

lemma update_events_pk:
  assumes "update_events w s rows = Inr (rows', ch)" and "\<And>e. id_event (s e) = id_event e"
  shows "map id_event rows' = map id_event rows"
proof -
  from assms(1) have r: "rows' = map (\<lambda>e. if w e then s e else e) rows"
    by (auto simp: update_events_def Let_def split: if_splits)
  show ?thesis unfolding r by (simp add: assms(2))
qed

lemma events_pk_same_ids:
  assumes "map id_event rows = map id_event (events db)" and "events_pk db"
  shows "events_pk (db\<lparr>events := rows\<rparr>)"
proof -
  have *: "\<And>xs n. list_all (\<lambda>e. id_event e \<le> n) xs = list_all (\<lambda>i. i \<le> n) (map id_event xs)"
    by (simp add: list_all_iff)
  from assms show ?thesis
    by (simp add: events_pk_def *)
qed

lemma createEvent_inv:
  assumes "events_pk db" and "inventory_inv db"
  shows "events_pk (snd (createEvent f db d c)) \<and> inventory_inv (snd (createEvent f db d c))"
proof -
  have fresh: "events_id_seq db + 1 \<notin> id_event ` set (events db)"
    using assms(1) by (fastforce simp: events_pk_def list_all_iff)
  have bound: "list_all (\<lambda>e. id_event e \<le> events_id_seq db + 1) (events db)"
    using assms(1) by (fastforce simp: events_pk_def list_all_iff)
  show ?thesis
    using assms fresh bound
    by (auto simp: createEvent_def Let_def events_pk_def inventory_inv_def inventory_ok_def
          events_check_def split: option.splits)
qed

lemma updateEvent_run_inv:
  assumes pk: "events_pk db" and inv: "inventory_inv db"
    and u0: "\<And>e. e \<in> set (events db) \<Longrightarrow> id_event e = i \<Longrightarrow>
              distinct (map column (updates0 @ clause (u_available_tickets d) SetAvailable)) \<Longrightarrow>
              0 \<le> total_tickets (fold assign (updates0 @ clause (u_available_tickets d) SetAvailable) e) \<Longrightarrow>
              0 \<le> available_tickets (fold assign (updates0 @ clause (u_available_tickets d) SetAvailable) e) \<Longrightarrow>
              inventory_ok (fold assign (updates0 @ clause (u_available_tickets d) SetAvailable) e)"
  shows "events_pk (snd (updateEvent_run f n db i updates0 d)) \<and>
         inventory_inv (snd (updateEvent_run f n db i updates0 d))"
proof -
  define mid where "mid = updates0 @ clause (u_available_tickets d) SetAvailable"
  define rest where "rest = clause (u_price d) SetPrice @ clause (u_image_url d) SetImageUrl
               @ clause (u_status d) SetStatus"
  define us where "us = mid @ rest"
  have us: "updates0 @ clause (u_available_tickets d) SetAvailable
      @ clause (u_price d) SetPrice @ clause (u_image_url d) SetImageUrl
      @ clause (u_status d) SetStatus = us"
    by (simp add: us_def mid_def rest_def)
  have run: "updateEvent_run f n db i updates0 d =
     (case fault_at f n of
        Some m \<Rightarrow> (Inl m, db)
      | None \<Rightarrow>
          if us = [] then (Inr (getEventById db i), db)
          else if \<not> distinct (map column us) then (Inl multiple_assignments, db)
          else (case update_events (\<lambda>e. id_event e = i) (\<lambda>e. fold assign us e) (events db) of
                  Inl m \<Rightarrow> (Inl m, db)
                | Inr (rows, returning) \<Rightarrow>
                    (Inr (case returning of [] \<Rightarrow> None | e # _ \<Rightarrow> Some e),
                     db\<lparr>events := rows\<rparr>)))"
    unfolding updateEvent_run_def Let_def us ..
  have "list_all plain rest" unfolding rest_def by (rule tail_plain)
  from fold_assign_plain[OF this]
  have keep: "\<And>e. total_tickets (fold assign us e) = total_tickets (fold assign mid e) \<and>
      available_tickets (fold assign us e) = available_tickets (fold assign mid e)"
    by (simp add: us_def)
  show ?thesis
  proof (cases "distinct (map column us)")
    case False
    then show ?thesis
      using pk inv by (simp add: run split: option.splits)
  next
    case True
    then have dm: "distinct (map column mid)" by (simp add: us_def)
    show ?thesis
    proof (cases "update_events (\<lambda>e. id_event e = i) (\<lambda>e. fold assign us e) (events db)")
      case (Inl m)
      then show ?thesis
        using pk inv by (simp add: run split: option.splits)
    next
      case (Inr p)
      obtain rows ch where p: "p = (rows, ch)" by (cases p)
      have "list_all inventory_ok rows"
      proof (rule update_events_inventory[OF Inr[unfolded p]])
        show "list_all inventory_ok (events db)" using inv by (simp add: inventory_inv_def)
      next
        fix e assume e: "e \<in> set (events db)" "id_event e = i" "events_check (fold assign us e)"
        from e(3) have "0 \<le> total_tickets (fold assign mid e)"
          and "0 \<le> available_tickets (fold assign mid e)"
          by (simp_all add: events_check_def keep)
        from u0[folded mid_def, OF e(1,2) dm this] show "inventory_ok (fold assign us e)"
          by (simp add: inventory_ok_def keep)
      qed
      moreover have "events_pk (db\<lparr>events := rows\<rparr>)"
        by (rule events_pk_same_ids[OF update_events_pk[OF Inr[unfolded p]] pk]) simp
      ultimately show ?thesis
        using pk inv Inr p
        by (simp add: run inventory_inv_def split: option.splits)
    qed
  qed
qed

lemma updateEvent_inv:
  assumes ne: "\<not> exceeds_total db (Update i d)"
    and pk: "events_pk db" and inv: "inventory_inv db"
  shows "events_pk (snd (updateEvent f db i d)) \<and> inventory_inv (snd (updateEvent f db i d))"
proof -
  let ?u1 = "clause (u_title d) SetTitle @ clause (u_description d) SetDescription
             @ clause (u_venue d) SetVenue @ clause (u_event_date d) SetEventDate"
  let ?av = "clause (u_available_tickets d) SetAvailable"
  have rows_ok: "\<And>e. e \<in> set (events db) \<Longrightarrow> inventory_ok e"
    using inv by (simp add: inventory_inv_def list_all_iff)
  have head: "\<And>e. total_tickets (fold assign ?u1 e) = total_tickets e \<and>
      available_tickets (fold assign ?u1 e) = available_tickets e"
    by (rule fold_assign_plain[OF head_plain])
  show ?thesis
  proof (cases "u_total_tickets d")
    case None
    have "events_pk (snd (updateEvent_run f 0 db i ?u1 d)) \<and>
          inventory_inv (snd (updateEvent_run f 0 db i ?u1 d))"
    proof (rule updateEvent_run_inv[OF pk inv])
      fix e assume e: "e \<in> set (events db)" "id_event e = i"
        and nn: "0 \<le> available_tickets (fold assign (?u1 @ ?av) e)"
      show "inventory_ok (fold assign (?u1 @ ?av) e)"
      proof (cases "u_available_tickets d")
        case None
        then show ?thesis
          using rows_ok[OF e(1)] head[of e] by (simp add: inventory_ok_def clause_def)
      next
        case (Some v)
        with ne None e have "v \<le> total_tickets e"
          by (auto simp: list_ex_iff)
        with Some nn head[of e] show ?thesis
          by (simp add: inventory_ok_def clause_def)
      qed
    qed
    with None show ?thesis by (simp add: updateEvent_def)
  next
    case (Some newTotal)
    show ?thesis
    proof (cases "fault_at f 0 = None \<and> getEventById db i \<noteq> None")
      case False
      with Some pk inv show ?thesis
        by (auto simp: updateEvent_def split: option.splits)
    next
      case True
      then obtain cur where cur: "getEventById db i = Some cur" by auto
      let ?na = "max 0 (available_tickets cur + (newTotal - total_tickets cur))"
      let ?u = "?u1 @ [SetTotal newTotal, SetAvailable ?na]"
      have curok: "inventory_ok cur"
        by (rule rows_ok[OF getEventById_SomeD(2)[OF cur]])
      have "events_pk (snd (updateEvent_run f 1 db i ?u d)) \<and>
            inventory_inv (snd (updateEvent_run f 1 db i ?u d))"
      proof (rule updateEvent_run_inv[OF pk inv])
        fix e assume dist: "distinct (map column (?u @ ?av))"
          and "0 \<le> total_tickets (fold assign (?u @ ?av) e)"
        from dist have av: "u_available_tickets d = None"
          by (cases "u_available_tickets d") (simp_all add: clause_def)
        with \<open>0 \<le> total_tickets (fold assign (?u @ ?av) e)\<close> have "0 \<le> newTotal"
          by (simp add: clause_def)
        with curok av show "inventory_ok (fold assign (?u @ ?av) e)"
          by (simp add: inventory_ok_def clause_def)
      qed
      with Some True cur show ?thesis
        by (simp add: updateEvent_def Let_def)
    qed
  qed
qed

text \<open>An update that gives both \<open>total_tickets\<close> and \<open>available_tickets\<close> assigns
  \<open>available_tickets\<close> twice: the server refuses the statement.\<close>

lemma update_both_refused:
  assumes "u_total_tickets d = Some t" and "u_available_tickets d = Some v"
  shows "\<exists>m. updateEvent f db i d = (Inl m, db)"
  using assms
  by (simp add: updateEvent_def updateEvent_run_def clause_def Let_def split: option.splits)

text \<open>An accepted update that gives \<open>available_tickets\<close> alone stores the value as given
  and leaves \<open>total_tickets\<close> as it was.\<close>

lemma update_available_stored:
  assumes nt: "u_total_tickets d = None" and av: "u_available_tickets d = Some v"
    and run: "updateEvent f db i d = (Inr (Some e'), db')"
  shows "available_tickets e' = v \<and> getEventById db' i = Some e' \<and>
         (\<exists>e. getEventById db i = Some e \<and> total_tickets e' = total_tickets e)"
proof -
  define u1 where "u1 = clause (u_title d) SetTitle @ clause (u_description d) SetDescription
             @ clause (u_venue d) SetVenue @ clause (u_event_date d) SetEventDate"
  define rest where "rest = clause (u_price d) SetPrice @ clause (u_image_url d) SetImageUrl
               @ clause (u_status d) SetStatus"
  define us where "us = u1 @ SetAvailable v # rest"
  let ?s = "\<lambda>e. fold assign us e"
  let ?g = "\<lambda>e. if id_event e = i then ?s e else e"
  have us: "u1 @ clause (u_available_tickets d) SetAvailable
      @ clause (u_price d) SetPrice @ clause (u_image_url d) SetImageUrl
      @ clause (u_status d) SetStatus = us"
    by (simp add: us_def rest_def av clause_def)
  have r: "updateEvent f db i d =
     (case fault_at f 0 of
        Some m \<Rightarrow> (Inl m, db)
      | None \<Rightarrow>
          if us = [] then (Inr (getEventById db i), db)
          else if \<not> distinct (map column us) then (Inl multiple_assignments, db)
          else (case update_events (\<lambda>e. id_event e = i) ?s (events db) of
                  Inl m \<Rightarrow> (Inl m, db)
                | Inr (rows, returning) \<Rightarrow>
                    (Inr (case returning of [] \<Rightarrow> None | e # _ \<Rightarrow> Some e),
                     db\<lparr>events := rows\<rparr>)))"
    unfolding updateEvent_def updateEvent_run_def Let_def nt option.case u1_def[symmetric] us ..
  have ne: "us \<noteq> []" by (simp add: us_def)
  from run[unfolded r] ne obtain rows returning where
    upd: "update_events (\<lambda>e. id_event e = i) ?s (events db) = Inr (rows, returning)"
    and ret: "(case returning of [] \<Rightarrow> None | e # _ \<Rightarrow> Some e) = Some e'"
    and db': "db' = db\<lparr>events := rows\<rparr>"
    by (auto split: option.splits if_splits sum.splits)
  from upd have rows: "rows = map ?g (events db)"
    and rt: "returning = map ?s (filter (\<lambda>e. id_event e = i) (events db))"
    by (auto simp: update_events_def Let_def split: if_splits)
  from ret rt obtain e where e: "getEventById db i = Some e" and e': "e' = ?s e"
    by (cases "filter (\<lambda>e. id_event e = i) (events db)")
       (auto simp: getEventById_def select_event_def)
  have p1: "list_all plain u1" unfolding u1_def by (rule head_plain)
  have p2: "list_all plain rest" unfolding rest_def by (rule tail_plain)
  have a: "available_tickets (?s e) = v"
    using fold_assign_plain[OF p2, of "(fold assign u1 e)\<lparr>available_tickets := v\<rparr>"]
    by (simp add: us_def)
  have t: "total_tickets (?s e) = total_tickets e"
    using fold_assign_plain[OF p2, of "(fold assign u1 e)\<lparr>available_tickets := v\<rparr>"]
      fold_assign_plain[OF p1, of e]
    by (simp add: us_def)
  have "getEventById (db\<lparr>events := map ?g (events db)\<rparr>) i = map_option ?g (getEventById db i)"
    by (rule getEventById_map) simp
  with e getEventById_SomeD(1)[OF e] have "getEventById db' i = Some (?s e)"
    by (simp add: db' rows)
  with a t e e' show ?thesis by auto
qed

lemma purchaseTickets_inv:
  assumes q: "0 \<le> qty" and pk: "events_pk db" and inv: "inventory_inv db"
  shows "events_pk (committed (snd (purchaseTickets f now db eid qty uid))) \<and>
         inventory_inv (committed (snd (purchaseTickets f now db eid qty uid)))"
proof -
  obtain r c where run: "purchaseTickets f now db eid qty uid = (r, c)"
    by (cases "purchaseTickets f now db eid qty uid")
  have "c = connect db \<or> (\<exists>x. purchaseTickets None now db eid qty uid = (x, c))"
  proof (cases r)
    case (Inl m)
    with purchase_failure[of f now db eid qty uid m c] run show ?thesis by auto
  next
    case (Inr x)
    with purchase_result_no_fault[of f now db eid qty uid x c] run show ?thesis by auto
  qed
  then have "events_pk (committed c) \<and> inventory_inv (committed c)"
  proof
    assume "c = connect db" with pk inv show ?thesis by (simp add: connect_def)
  next
    assume "\<exists>x. purchaseTickets None now db eid qty uid = (x, c)"
    then obtain x where "purchaseTickets None now db eid qty uid = (x, c)" ..
    from purchase_None_cases[OF this] consider
        (same) "c = connect db"
      | (sold) ev rest where "select_event db eid = ev # rest" "qty \<le> available_tickets ev"
          "c = connect (db\<lparr>events := map (\<lambda>e. if id_event e = eid
                          then e\<lparr>available_tickets := available_tickets ev - qty\<rparr> else e) (events db),
                     tickets := tickets db @ map (ticket_row now ev eid uid) [0..qty - 1]\<rparr>)"
      by blast
    then show ?thesis
    proof cases
      case same
      with pk inv show ?thesis by (simp add: connect_def)
    next
      case (sold ev rest)
      let ?g = "\<lambda>e. if id_event e = eid then e\<lparr>available_tickets := available_tickets ev - qty\<rparr> else e"
      have "getEventById db eid = Some ev" using sold(1) by (simp add: getEventById_def)
      note evD = getEventById_SomeD[OF this]
      have inj: "inj_on id_event (set (events db))"
        using pk by (simp add: events_pk_def distinct_map)
      have only: "\<And>e. e \<in> set (events db) \<Longrightarrow> id_event e = eid \<Longrightarrow> e = ev"
        using inj evD by (auto dest: inj_onD)
      have evok: "inventory_ok ev" using inv evD(2) by (simp add: inventory_inv_def list_all_iff)
      have "list_all inventory_ok (map ?g (events db))"
        using inv q sold(2) evok only by (auto simp: inventory_inv_def list_all_iff inventory_ok_def)
      moreover have "events_pk (db\<lparr>events := map ?g (events db)\<rparr>)"
        by (rule events_pk_same_ids[OF _ pk]) simp
      ultimately show ?thesis
        by (simp add: sold(3) connect_def inventory_inv_def events_pk_def)
    qed
  qed
  with run show ?thesis by simp
qed

lemma controller_purchase_db:
  "snd (EventController_purchaseTickets f now db req) = db \<or>
   (\<exists>eid q uid. 1 \<le> q \<and>
      snd (EventController_purchaseTickets f now db req)
        = committed (snd (purchaseTickets f now db eid q uid)))"
proof (cases "\<exists>u eid q. req_user req = Some u \<and> userId u \<noteq> 0 \<and> param_eventId req = Some eid \<and>
                body_quantity req = Some q \<and> 1 \<le> q")
  case True
  then obtain u eid q where r: "req_user req = Some u" "userId u \<noteq> 0" "param_eventId req = Some eid"
      "body_quantity req = Some q" "1 \<le> q" by blast
  then have "snd (EventController_purchaseTickets f now db req)
      = committed (snd (purchaseTickets f now db eid q (userId u)))"
    by (simp add: EventController_purchaseTickets_def Let_def split: prod.splits sum.splits)
  with r(5) show ?thesis by blast
next
  case False
  then have "snd (EventController_purchaseTickets f now db req) = db"
    by (auto simp: EventController_purchaseTickets_def split: option.splits)
  then show ?thesis ..
qed

lemma controller_purchase_inv:
  assumes pk: "events_pk db" and inv: "inventory_inv db"
  shows "events_pk (snd (EventController_purchaseTickets f now db req)) \<and>
         inventory_inv (snd (EventController_purchaseTickets f now db req))"
  using controller_purchase_db[of f now db req]
proof (elim disjE exE conjE)
  assume "snd (EventController_purchaseTickets f now db req) = db"
  with pk inv show ?thesis by simp
next
  fix eid q uid
  assume q: "1 \<le> q"
    and e: "snd (EventController_purchaseTickets f now db req)
              = committed (snd (purchaseTickets f now db eid q uid))"
  from q have "0 \<le> q" by simp
  from purchaseTickets_inv[OF this pk inv, of f now eid uid] e show ?thesis by simp
qed

subsection \<open>Claims about the purchase and the inventory\<close>

lemmas run_defs =
  purchaseTickets_def purchase_try_def connect_def BEGIN_def COMMIT_def ROLLBACK_def release_def
  view_def store_def select_event_def getEventById_def update_events_def events_check_def
  tickets_violation_def tickets_check_def
  fault_at_def show_int_def ticket_row_def insert_tickets.simps Let_def

lemmas sample_defs = db0_def ev0_def bob_def carol_def buyer_def no_update_def

text \<open>
  Claim C1, as the code has it. A call of \<open>purchaseTickets\<close> that throws has ended its
  transaction: the connection goes back to the pool with no transaction open. When the
  error arises between \<open>BEGIN\<close> and \<open>COMMIT\<close> (event not found, insufficient inventory, wrong
  status, a statement the server refuses, a fault of any query up to and including
  \<open>COMMIT\<close>), the \<open>try\<close> block leaves the transaction open with its writes unpublished, and
  it is the \<open>ROLLBACK\<close> of the \<open>catch\<close> block that ends it: the database (events, tickets
  and every other table) is exactly as it was before the call. There is one exception:
  when the error is the fault of the read that follows \<open>COMMIT\<close>, the call throws although
  the purchase is committed; the database is then the one the purchase without faults
  leaves, and the \<open>ROLLBACK\<close> has nothing to undo. So a partial purchase is never visible.
  A call for more tickets than are available leaves the database unchanged whatever else
  happens.
\<close>

theorem purchase_failure_rolls_back:
  assumes "purchaseTickets f now db eid qty uid = (Inl m, c)"
  shows "(c = connect db \<or>
          (fault_at f (4 + nat qty) = Some m \<and>
           (\<exists>ev. purchaseTickets None now db eid qty uid = (Inr ev, c)))) \<and>
         txn c = None \<and>
         (\<exists>c'. purchase_try f now (connect db) eid qty uid = (Inl m, c') \<and>
               c = release (ROLLBACK c') \<and>
               (fault_at f 0 = None \<and> fault_at f (4 + nat qty) = None \<longrightarrow>
                  txn c' \<noteq> None \<and> committed c' = db)) \<and>
         (\<forall>ev. getEventById db eid = Some ev \<and> available_tickets ev < qty \<longrightarrow> c = connect db)"
proof (intro conjI)
  show "c = connect db \<or>
        (fault_at f (4 + nat qty) = Some m \<and>
         (\<exists>ev. purchaseTickets None now db eid qty uid = (Inr ev, c)))"
    by (rule purchase_failure[OF assms])
next
  from purchaseTickets_ends_transaction[of f now db eid qty uid] assms
  show "txn c = None" by simp
next
  obtain r c' where pt: "purchase_try f now (connect db) eid qty uid = (r, c')"
    by (cases "purchase_try f now (connect db) eid qty uid")
  from assms pt have r: "r = Inl m" and c: "c = release (ROLLBACK c')"
    by (auto simp: purchaseTickets_def split: sum.splits)
  have "fault_at f 0 = None \<and> fault_at f (4 + nat qty) = None \<longrightarrow>
          txn c' \<noteq> None \<and> committed c' = db"
  proof (intro impI conjI)
    assume nf: "fault_at f 0 = None \<and> fault_at f (4 + nat qty) = None"
    then show "txn c' \<noteq> None"
      using purchase_try_thrown[OF pt[unfolded r]] by simp
    from purchase_try_cases[OF pt] r nf show "committed c' = db" by auto
  qed
  with pt[unfolded r] c show "\<exists>c'. purchase_try f now (connect db) eid qty uid = (Inl m, c') \<and>
               c = release (ROLLBACK c') \<and>
               (fault_at f 0 = None \<and> fault_at f (4 + nat qty) = None \<longrightarrow>
                  txn c' \<noteq> None \<and> committed c' = db)"
    by blast
next
  show "\<forall>ev. getEventById db eid = Some ev \<and> available_tickets ev < qty \<longrightarrow> c = connect db"
  proof (intro allI impI, elim conjE)
    fix ev assume ev: "getEventById db eid = Some ev" and short: "available_tickets ev < qty"
    from purchase_failure[OF assms] show "c = connect db"
    proof
      assume "c = connect db" then show ?thesis .
    next
      assume "fault_at f (4 + nat qty) = Some m \<and>
              (\<exists>ev. purchaseTickets None now db eid qty uid = (Inr ev, c))"
      then obtain x where "purchaseTickets None now db eid qty uid = (Inr x, c)" by blast
      from purchase_None_cases[OF this] ev short show ?thesis
        by (auto simp: getEventById_def)
    qed
  qed
qed

text \<open>
  Witness for C1. Scenario B of the specification: Bob has bought 3 of the 5 tickets;
  Carol's purchase of 3 throws the capacity error, her connection goes back to the pool
  without a transaction, and the database still shows 2 available tickets and Bob's 3
  ticket rows. A lost connection: the \<open>UPDATE\<close> of Bob's purchase throws; the \<open>try\<close> block
  leaves its transaction open, and after the \<open>ROLLBACK\<close> the database is the initial one.
\<close>

theorem purchase_failure_rolls_back_witness:
  "map available_tickets (events db_sold) = [2] \<and> length (tickets db_sold) = 3 \<and>
   purchaseTickets None 0 db_sold 1 3 8
     = (Inl ''Not enough tickets available. Available: 2, Requested: 3'', connect db_sold) \<and>
   purchaseTickets (Some (2, ''Connection terminated unexpectedly'')) 0 db0 1 3 7
     = (Inl ''Connection terminated unexpectedly'', connect db0) \<and>
   txn (snd (purchase_try (Some (2, ''Connection terminated unexpectedly'')) 0 (connect db0) 1 3 7))
     \<noteq> None"
proof -
  let ?m = "''Not enough tickets available. Available: 2, Requested: 3''"
  let ?f = "Some (2 :: nat, ''Connection terminated unexpectedly'')"
  have d: "db_sold = db0\<lparr>events := [ev0\<lparr>available_tickets := 2\<rparr>],
                         tickets := map (ticket_row 0 ev0 1 7) [0, 1, 2]\<rparr>"
    unfolding db_sold_def by (simp add: run_defs sample_defs)
  have g: "getEventById db_sold 1 = Some (ev0\<lparr>available_tickets := 2\<rparr>)"
    by (simp add: d getEventById_def select_event_def sample_defs)
  have "fst (purchaseTickets None 0 db_sold 1 3 8) = Inl ?m"
    by (simp add: d run_defs sample_defs)
  then have h: "purchaseTickets None 0 db_sold 1 3 8
      = (Inl ?m, snd (purchaseTickets None 0 db_sold 1 3 8))"
    by (metis prod.collapse)
  from purchase_failure_rolls_back[OF h] g
  have "snd (purchaseTickets None 0 db_sold 1 3 8) = connect db_sold" by simp
  with h have capacity: "purchaseTickets None 0 db_sold 1 3 8 = (Inl ?m, connect db_sold)" by simp
  have sold: "map available_tickets (events db_sold) = [2] \<and> length (tickets db_sold) = 3"
    by (simp add: d sample_defs)
  have "fst (purchaseTickets ?f 0 db0 1 3 7) = Inl ''Connection terminated unexpectedly''"
    by (simp add: run_defs sample_defs)
  then have h': "purchaseTickets ?f 0 db0 1 3 7
      = (Inl ''Connection terminated unexpectedly'', snd (purchaseTickets ?f 0 db0 1 3 7))"
    by (metis prod.collapse)
  have nf: "fault_at ?f 0 = None \<and> fault_at ?f (4 + nat 3) = None"
    by (simp add: fault_at_def)
  from purchase_failure_rolls_back[OF h'] nf
  have lost: "snd (purchaseTickets ?f 0 db0 1 3 7) = connect db0"
    and "\<exists>c'. purchase_try ?f 0 (connect db0) 1 3 7
                  = (Inl ''Connection terminated unexpectedly'', c') \<and> txn c' \<noteq> None"
    by auto
  then have "txn (snd (purchase_try ?f 0 (connect db0) 1 3 7)) \<noteq> None"
    by auto
  with capacity sold h' lost show ?thesis by simp
qed

text \<open>
  Counterexample to C1 as stated: Bob, a user of the database, buys one ticket, and the
  read of the updated event after \<open>COMMIT\<close> (query 5 of the call) fails. The call throws,
  yet \<open>available_tickets\<close> went from 5 to 4 and one ticket row exists.
\<close>

theorem purchase_rollback_counterexample:
  "map id_user (users db0) = [7, 8] \<and>
   fst (purchaseTickets (Some (5, ''Connection terminated unexpectedly'')) 0 db0 1 1 7)
     = Inl ''Connection terminated unexpectedly'' \<and>
   map available_tickets (events (committed (snd
     (purchaseTickets (Some (5, ''Connection terminated unexpectedly'')) 0 db0 1 1 7)))) = [4] \<and>
   map available_tickets (events db0) = [5] \<and>
   map user_id_ticket (tickets (committed (snd
     (purchaseTickets (Some (5, ''Connection terminated unexpectedly'')) 0 db0 1 1 7)))) = [7] \<and>
   tickets db0 = []"
  by (simp add: run_defs sample_defs)



text \<open>
  Claim C7, as the code has it. The invariant \<open>0 \<le> available_tickets \<le> total_tickets\<close> of
  every event row (together with the primary key of the table) is preserved by event
  creation, by every purchase request, and by every update, whatever fault occurs, unless
  the update gives \<open>available_tickets\<close> alone and more of them than the \<open>total_tickets\<close> of
  the row. This includes the updates that change \<open>total_tickets\<close>, which recompute
  \<open>available_tickets\<close>, and the updates that set \<open>available_tickets\<close> to at most
  \<open>total_tickets\<close>. An update that gives both columns is refused and changes nothing. An
  accepted update that gives \<open>available_tickets\<close> alone stores the value as given, next to
  the unchanged \<open>total_tickets\<close>: nothing compares the two.
\<close>

theorem inventory_invariant_preserved:
  "(events_pk db \<and> inventory_inv db \<and> \<not> exceeds_total db w \<longrightarrow>
      events_pk (run_write f now db w) \<and> inventory_inv (run_write f now db w)) \<and>
   (u_total_tickets d \<noteq> None \<and> u_available_tickets d \<noteq> None \<longrightarrow>
      (\<exists>m. updateEvent f db i d = (Inl m, db))) \<and>
   (u_total_tickets d = None \<and> u_available_tickets d = Some v \<and>
    updateEvent f db i d = (Inr (Some e'), db') \<longrightarrow>
      available_tickets e' = v \<and> getEventById db' i = Some e' \<and>
      (\<exists>e. getEventById db i = Some e \<and> total_tickets e' = total_tickets e))"
proof (intro conjI impI)
  assume a: "events_pk db \<and> inventory_inv db \<and> \<not> exceeds_total db w"
  then have pk: "events_pk db" and inv: "inventory_inv db" and ne: "\<not> exceeds_total db w"
    by simp_all
  show "events_pk (run_write f now db w)" "inventory_inv (run_write f now db w)"
  proof -
    have "events_pk (run_write f now db w) \<and> inventory_inv (run_write f now db w)"
    proof (cases w)
      case (Create d c)
      with createEvent_inv[OF pk inv] show ?thesis by simp
    next
      case (Update i d)
      with updateEvent_inv[OF _ pk inv, of i d f] ne show ?thesis by simp
    next
      case (Purchase req)
      with controller_purchase_inv[OF pk inv] show ?thesis by simp
    qed
    then show "events_pk (run_write f now db w)" "inventory_inv (run_write f now db w)"
      by simp_all
  qed
next
  assume "u_total_tickets d \<noteq> None \<and> u_available_tickets d \<noteq> None"
  then show "\<exists>m. updateEvent f db i d = (Inl m, db)"
    by (auto intro: update_both_refused)
next
  assume a: "u_total_tickets d = None \<and> u_available_tickets d = Some v \<and>
    updateEvent f db i d = (Inr (Some e'), db')"
  from a update_available_stored[of d v f db i e' db']
  show "available_tickets e' = v" "getEventById db' i = Some e'"
    "\<exists>e. getEventById db i = Some e \<and> total_tickets e' = total_tickets e"
    by simp_all
qed

text \<open>
  Witness for C7, on the event with 5 of 10 tickets left: setting \<open>available_tickets\<close> to 4
  keeps the invariant; lowering \<open>total_tickets\<close> to 3 leaves 0 available of 3; giving both
  columns is refused; setting \<open>available_tickets\<close> to 100 returns the event with 100
  available of 10.
\<close>

theorem inventory_invariant_preserved_witness:
  "events_pk db0 \<and> inventory_inv db0 \<and>
   inventory_inv (run_write None 0 db0 (Update 1 (no_update\<lparr>u_available_tickets := Some 4\<rparr>))) \<and>
   map (\<lambda>e. (total_tickets e, available_tickets e))
     (events (run_write None 0 db0 (Update 1 (no_update\<lparr>u_available_tickets := Some 4\<rparr>)))) = [(10, 4)] \<and>
   inventory_inv (run_write None 0 db0 (Update 1 (no_update\<lparr>u_total_tickets := Some 3\<rparr>))) \<and>
   map (\<lambda>e. (total_tickets e, available_tickets e))
     (events (run_write None 0 db0 (Update 1 (no_update\<lparr>u_total_tickets := Some 3\<rparr>)))) = [(3, 0)] \<and>
   updateEvent None db0 1 (no_update\<lparr>u_total_tickets := Some 3, u_available_tickets := Some 2\<rparr>)
     = (Inl multiple_assignments, db0) \<and>
   fst (updateEvent None db0 1 (no_update\<lparr>u_available_tickets := Some 100\<rparr>))
     = Inr (Some (ev0\<lparr>available_tickets := 100\<rparr>)) \<and>
   getEventById (snd (updateEvent None db0 1 (no_update\<lparr>u_available_tickets := Some 100\<rparr>))) 1
     = Some (ev0\<lparr>available_tickets := 100\<rparr>)"
proof -
  let ?set4 = "Update 1 (no_update\<lparr>u_available_tickets := Some 4\<rparr>)"
  let ?total3 = "Update 1 (no_update\<lparr>u_total_tickets := Some 3\<rparr>)"
  let ?both = "no_update\<lparr>u_total_tickets := Some 3, u_available_tickets := Some 2\<rparr>"
  let ?set100 = "no_update\<lparr>u_available_tickets := Some 100\<rparr>"
  have h1: "events_pk db0" by (simp add: events_pk_def sample_defs)
  have h2: "inventory_inv db0" by (simp add: inventory_inv_def inventory_ok_def sample_defs)
  have n4: "\<not> exceeds_total db0 ?set4" by (simp add: sample_defs)
  have n3: "\<not> exceeds_total db0 ?total3" by (simp add: sample_defs)
  have v4: "map (\<lambda>e. (total_tickets e, available_tickets e)) (events (run_write None 0 db0 ?set4))
      = [(10, 4)]"
    by (simp add: updateEvent_def updateEvent_run_def clause_def run_defs sample_defs)
  have v3: "map (\<lambda>e. (total_tickets e, available_tickets e)) (events (run_write None 0 db0 ?total3))
      = [(3, 0)]"
    by (simp add: updateEvent_def updateEvent_run_def clause_def run_defs sample_defs)
  have i4: "inventory_inv (run_write None 0 db0 ?set4)"
    using inventory_invariant_preserved[where db = db0 and w = ?set4 and f = None and now = 0]
      h1 h2 n4 by blast
  have i3: "inventory_inv (run_write None 0 db0 ?total3)"
    using inventory_invariant_preserved[where db = db0 and w = ?total3 and f = None and now = 0]
      h1 h2 n3 by blast
  have b0: "u_total_tickets ?both \<noteq> None \<and> u_available_tickets ?both \<noteq> None" by simp
  have "\<exists>m. updateEvent None db0 1 ?both = (Inl m, db0)"
    using inventory_invariant_preserved[where db = db0 and f = None and d = ?both and i = 1] b0
    by blast
  moreover have "fst (updateEvent None db0 1 ?both) = Inl multiple_assignments"
    by (simp add: updateEvent_def updateEvent_run_def clause_def run_defs sample_defs)
  ultimately have b: "updateEvent None db0 1 ?both = (Inl multiple_assignments, db0)" by auto
  have f100: "fst (updateEvent None db0 1 ?set100) = Inr (Some (ev0\<lparr>available_tickets := 100\<rparr>))"
    by (simp add: updateEvent_def updateEvent_run_def clause_def run_defs sample_defs)
  then have r100: "updateEvent None db0 1 ?set100
      = (Inr (Some (ev0\<lparr>available_tickets := 100\<rparr>)), snd (updateEvent None db0 1 ?set100))"
    by (metis prod.collapse)
  have s0: "u_total_tickets ?set100 = None \<and> u_available_tickets ?set100 = Some 100"
    by (simp add: no_update_def)
  have g100: "getEventById (snd (updateEvent None db0 1 ?set100)) 1
      = Some (ev0\<lparr>available_tickets := 100\<rparr>)"
    using inventory_invariant_preserved[where db = db0 and f = None and d = ?set100 and i = 1
        and v = 100 and e' = "ev0\<lparr>available_tickets := 100\<rparr>"
        and db' = "snd (updateEvent None db0 1 ?set100)"] s0 r100
    by blast
  from h1 h2 i4 v4 i3 v3 b f100 g100 show ?thesis by simp
qed

text \<open>
  Counterexample to C7 as stated: an update that sets \<open>available_tickets\<close> to 100 on an event
  of 10 tickets is stored as given.
\<close>

theorem inventory_invariant_counterexample:
  "events_pk db0 \<and> inventory_inv db0 \<and>
   \<not> inventory_inv (run_write None 0 db0 (Update 1 (no_update\<lparr>u_available_tickets := Some 100\<rparr>))) \<and>
   map (\<lambda>e. (total_tickets e, available_tickets e))
     (events (run_write None 0 db0 (Update 1 (no_update\<lparr>u_available_tickets := Some 100\<rparr>)))) = [(10, 100)]"
  by (simp add: updateEvent_def updateEvent_run_def clause_def run_defs sample_defs
        events_pk_def inventory_inv_def inventory_ok_def)

text \<open>
  Claim C3 at the failing input. A purchase of one ticket for an event whose status is
  \<open>completed\<close> (or \<open>cancelled\<close>) and which has tickets left is answered with 500: the message
  of the status error contains neither \<open>not found\<close> nor \<open>available\<close>, the two strings the
  controller looks for.
\<close>

theorem purchase_wrong_status_is_500:
  "EventController_purchaseTickets None 0 (db0\<lparr>events := [ev0\<lparr>status_event := ''completed''\<rparr>]\<rparr>)
      \<lparr>req_user = Some buyer, param_eventId = Some 1, body_quantity = Some 1\<rparr>
    = (reply 500 ''Internal server error'' ''Cannot purchase tickets for completed event'',
       db0\<lparr>events := [ev0\<lparr>status_event := ''completed''\<rparr>]\<rparr>) \<and>
   EventController_purchaseTickets None 0 (db0\<lparr>events := [ev0\<lparr>status_event := ''cancelled''\<rparr>]\<rparr>)
      \<lparr>req_user = Some buyer, param_eventId = Some 1, body_quantity = Some 1\<rparr>
    = (reply 500 ''Internal server error'' ''Cannot purchase tickets for cancelled event'',
       db0\<lparr>events := [ev0\<lparr>status_event := ''cancelled''\<rparr>]\<rparr>)"
  by (simp add: EventController_purchaseTickets_def purchase_status_def run_defs sample_defs)

text \<open>The three business errors of the service, thrown after the \<open>ROLLBACK\<close>.\<close>

lemma missing_event_throws:
  assumes "select_event db eid = []"
  shows "purchaseTickets None now db eid q uid = (Inl ''Event not found'', connect db)"
  using assms
  by (simp add: purchaseTickets_def purchase_try_def connect_def BEGIN_def view_def
        ROLLBACK_def release_def)

lemma capacity_throws:
  assumes "select_event db eid = ev # rest" and "available_tickets ev < q"
  shows "purchaseTickets None now db eid q uid
         = (Inl (''Not enough tickets available. Available: '' @ show_int (available_tickets ev)
                  @ '', Requested: '' @ show_int q), connect db)"
  using assms
  by (simp add: purchaseTickets_def purchase_try_def connect_def BEGIN_def view_def
        ROLLBACK_def release_def)

lemma wrong_status_throws:
  assumes "select_event db eid = ev # rest" and "q \<le> available_tickets ev"
    and "status_event ev \<noteq> ''upcoming''" and "status_event ev \<noteq> ''live''"
  shows "purchaseTickets None now db eid q uid
         = (Inl (''Cannot purchase tickets for '' @ status_event ev @ '' event''), connect db)"
  using assms
  by (simp add: purchaseTickets_def purchase_try_def connect_def BEGIN_def view_def
        ROLLBACK_def release_def)

text \<open>Every purchase of tickets that would be available, for an event that is completed
  or cancelled, is answered with 500.\<close>

lemma wrong_status_is_500:
  assumes "req_user req = Some u" and "userId u \<noteq> 0" and "param_eventId req = Some eid"
    and "body_quantity req = Some q" and "1 \<le> q"
    and "select_event db eid = ev # rest" and "q \<le> available_tickets ev"
    and "status_event ev = ''completed'' \<or> status_event ev = ''cancelled''"
  shows "EventController_purchaseTickets None now db req
         = (reply 500 ''Internal server error''
              (''Cannot purchase tickets for '' @ status_event ev @ '' event''), db)"
proof -
  from assms(8) have ns: "status_event ev \<noteq> ''upcoming''" "status_event ev \<noteq> ''live''" by auto
  from assms(8) have "purchase_status (''Cannot purchase tickets for '' @ status_event ev @ '' event'') = 500"
    by (auto simp: purchase_status_def)
  with assms(1-5) wrong_status_throws[OF assms(6,7) ns, of now "userId u"] show ?thesis
    by (simp add: EventController_purchaseTickets_def connect_def)
qed

text \<open>The two other business failures do get their 4xx status.\<close>

lemma purchase_other_failures_are_4xx:
  "fst (EventController_purchaseTickets None 0 db0
      \<lparr>req_user = Some buyer, param_eventId = Some 2, body_quantity = Some 1\<rparr>)
    = reply 404 ''Not found'' ''Event not found'' \<and>
   fst (EventController_purchaseTickets None 0 db0
      \<lparr>req_user = Some buyer, param_eventId = Some 1, body_quantity = Some 6\<rparr>)
    = reply 400 ''Bad request'' ''Not enough tickets available. Available: 5, Requested: 6''"
  by (simp add: EventController_purchaseTickets_def purchase_status_def run_defs sample_defs)

subsection \<open>The session ledger and the gate\<close>

lemma revokeToken_all_revoked:
  "all_revoked E token (snd (revokeToken E t None db token))"
  by (auto simp add: revokeToken_def all_revoked_def Let_def list_all_iff)

lemma apply_op_all_revoked:
  assumes "all_revoked E token db" and "\<not> records_hash E (hashToken E token) op"
  shows "all_revoked E token (apply_op E op db)"
proof -
  obtain t o' where op: "op = (t, o')" by (cases op)
  show ?thesis
  proof (cases o')
    case (OpCreate dto)
    with assms op show ?thesis
      by (auto simp: createSession_def all_revoked_def Let_def list_all_iff split: option.splits)
  next
    case (OpRevoke tok)
    with assms op show ?thesis
      by (auto simp: revokeToken_def all_revoked_def Let_def list_all_iff)
  next
    case (OpRevokeAll u)
    with assms op show ?thesis
      by (auto simp: revokeAllUserSessions_def all_revoked_def Let_def list_all_iff)
  next
    case (OpTouch tok)
    with assms op show ?thesis
      by (auto simp: updateLastUsed_def all_revoked_def Let_def list_all_iff)
  next
    case OpCleanup
    with assms op show ?thesis
      by (auto simp: cleanupExpiredSessions_def all_revoked_def Let_def list_all_iff)
  qed
qed

lemma fold_all_revoked:
  "all_revoked E token db \<Longrightarrow>
   list_all (\<lambda>op. \<not> records_hash E (hashToken E token) op) ops \<Longrightarrow>
   all_revoked E token (fold (apply_op E) ops db)"
proof (induction ops arbitrary: db)
  case Nil
  then show ?case by simp
next
  case (Cons op ops)
  from Cons.prems have a: "all_revoked E token (apply_op E op db)"
    by (simp add: apply_op_all_revoked)
  from Cons.IH[OF a] Cons.prems(2) show ?case by simp
qed

lemma all_revoked_invalid:
  assumes "all_revoked E token db"
  shows "isTokenValid E now q db token \<noteq> Inr True"
proof (cases "filter (\<lambda>s. token_hash s = hashToken E token) (sessions db)")
  case Nil
  then show ?thesis
    by (simp add: isTokenValid_def findSessionByToken_def split: option.splits)
next
  case (Cons s rest)
  then have "s \<in> set (filter (\<lambda>s. token_hash s = hashToken E token) (sessions db))" by simp
  with assms have "is_revoked s" by (simp add: all_revoked_def list_all_iff)
  with Cons show ?thesis
    by (simp add: isTokenValid_def findSessionByToken_def split: option.splits)
qed

lemma presents_extract:
  assumes "presents h token"
  shows "(if startsWith h ''Bearer '' then drop 7 h else h) = token"
  using assms by (auto simp: presents_def)

lemma authenticate_invalid:
  assumes p: "presents h token" and inv: "isTokenValid E now (fault_at f 0) db token \<noteq> Inr True"
  shows "\<exists>res. authenticate E now f db (Some h) = (Rejected res, db) \<and>
           (status res = 401 \<or> status res = 500) \<and>
           (fault_at f 0 = None \<and> credential_error (jwt_verify E token now) \<longrightarrow> status res = 401)"
proof -
  note x = presents_extract[OF p]
  have nofault: "fault_at f 0 = None \<Longrightarrow> \<exists>b. isTokenValid E now (fault_at f 0) db token = Inr b"
    by (auto simp add: isTokenValid_def findSessionByToken_def split: list.splits)
  show ?thesis
  proof (cases "h = [] \<or> token = []")
    case True
    then show ?thesis
      using x by (auto simp: authenticate_def Let_def reply_def)
  next
    case False
    show ?thesis
    proof (cases "jwt_verify E token now")
      case (Thrown name)
      with False x show ?thesis
        by (auto simp: authenticate_def Let_def reply_def credential_error_def)
    next
      case (Decoded d)
      show ?thesis
      proof (cases "isTokenValid E now (fault_at f 0) db token")
        case (Inl m)
        have "fault_at f 0 \<noteq> None"
        proof
          assume n: "fault_at f 0 = None"
          from nofault[OF n] Inl show False by simp
        qed
        with False x Decoded Inl show ?thesis
          by (auto simp: authenticate_def Let_def reply_def)
      next
        case (Inr b)
        with inv have "b = False" by simp
        with False x Decoded Inr show ?thesis
          by (auto simp: authenticate_def Let_def reply_def)
      qed
    qed
  qed
qed

text \<open>Revocation is idempotent: a second \<open>revokeToken\<close> changes no row and returns false.\<close>

lemma revokeToken_twice:
  "revokeToken E t2 None (snd (revokeToken E t1 None db token)) token
     = (Inr False, snd (revokeToken E t1 None db token))"
proof -
  let ?hit = "\<lambda>s. token_hash s = hashToken E token \<and> is_revoked s = False"
  let ?rev = "\<lambda>t s. if ?hit s then s\<lparr>is_revoked := True, revoked_at := Some t\<rparr> else s"
  have none: "filter ?hit (map (?rev t1) (sessions db)) = []"
    by (induction "sessions db") (auto simp: filter_empty_conv)
  have same: "map (?rev t2) (map (?rev t1) (sessions db)) = map (?rev t1) (sessions db)"
    by simp
  show ?thesis
    using none same by (simp add: revokeToken_def Let_def)
qed

text \<open>
  Claim C5, as the code has it. After \<open>revokeToken\<close> has run for a token, and after any
  further writes of the ledger that do not record a new session under the same hash, a
  request that presents the token is never admitted: the gate answers and leaves the
  ledger alone. The answer is 401, unless the lookup of the session fails or \<open>jwt.verify\<close>
  throws an error that is neither an expired nor an invalid token, which are answered
  with 500. Whether \<open>jwt.verify\<close> still accepts the token plays no role. The condition on
  the later writes is needed: a login that is issued the same token again records a
  session that is not revoked.
\<close>

theorem revoked_token_is_rejected:
  assumes "revokeToken E t0 None db token = (Inr changed, db1)"
    and "list_all (\<lambda>op. \<not> records_hash E (hashToken E token) op) ops"
    and "presents authHeader token"
  shows "\<exists>res. authenticate E now f (fold (apply_op E) ops db1) (Some authHeader)
                 = (Rejected res, fold (apply_op E) ops db1) \<and>
           (status res = 401 \<or> status res = 500) \<and>
           (fault_at f 0 = None \<and> credential_error (jwt_verify E token now) \<longrightarrow> status res = 401)"
proof -
  from assms(1) have "db1 = snd (revokeToken E t0 None db token)" by simp
  then have "all_revoked E token db1" by (simp add: revokeToken_all_revoked)
  from fold_all_revoked[OF this assms(2)]
  have "all_revoked E token (fold (apply_op E) ops db1)" .
  from authenticate_invalid[OF assms(3) all_revoked_invalid[OF this]] show ?thesis .
qed

text \<open>
  Witness for C5: Alice logs out at 1500; her session is touched, the cleanup job runs,
  a minute later she logs in again and is logged out everywhere; at 62000 the old token,
  which \<open>jwt.verify\<close> would accept for a week, is answered with 401.
\<close>

theorem revoked_token_is_rejected_witness:
  "fst (revokeToken E0 1500 None db_login alice_token) = Inr True \<and>
   fst (authenticate E0 62000 None
          (fold (apply_op E0) ledger_ops (snd (revokeToken E0 1500 None db_login alice_token)))
          (Some (''Bearer '' @ alice_token)))
     = (Rejected (reply 401 ''Unauthorized'' ''Token has been revoked'') :: unit gate)"
proof -
  let ?db1 = "snd (revokeToken E0 1500 None db_login alice_token)"
  let ?db2 = "fold (apply_op E0) ledger_ops ?db1"
  have r: "fst (revokeToken E0 1500 None db_login alice_token) = Inr True"
    by code_simp
  then have h1: "revokeToken E0 1500 None db_login alice_token = (Inr True, ?db1)"
    by (metis prod.collapse)
  have h2: "list_all (\<lambda>op. \<not> records_hash E0 (hashToken E0 alice_token) op) ledger_ops"
    by code_simp
  have h3: "presents (''Bearer '' @ alice_token) alice_token"
    by (simp add: presents_def)
  have v: "credential_error (jwt_verify E0 alice_token 62000)"
    by code_simp
  from revoked_token_is_rejected[OF h1 h2 h3, of 62000 None]
  obtain res :: "unit response" where
    a: "authenticate E0 62000 None ?db2 (Some (''Bearer '' @ alice_token)) = (Rejected res, ?db2)"
    and s: "status res = 401 \<or> status res = 500"
    and c: "fault_at None 0 = None \<and> credential_error (jwt_verify E0 alice_token 62000) \<longrightarrow> status res = 401"
    by blast
  from c v have "status res = 401" by (simp add: fault_at_def)
  moreover from a have "fst (authenticate E0 62000 None ?db2 (Some (''Bearer '' @ alice_token))) = Rejected res"
    by simp
  ultimately show ?thesis using r by code_simp
qed

text \<open>
  Counterexample to C5 as stated, on the server configured with \<open>JWT_EXPIRES_IN=90d\<close>.
  Alice logs in at 1000 and logs out at 1400, which revokes her token. She logs in again
  at 1800, within the same second, and is issued the same token, recorded as a second
  session. Thirty days after the revocation the hourly job deletes the revoked row, and
  the gate admits the revoked token.
\<close>

theorem revoked_token_admitted_counterexample:
  "data_json (fst (POST_login E90 1000 None db_alice alice_login req0))
     = Some (public alice, alice_token) \<and>
   revokeToken E90 1400 None db_login90 alice_token = (Inr True, db_logout90) \<and>
   data_json (fst (POST_login E90 1800 None db_logout90 alice_login req0))
     = Some (public alice, alice_token) \<and>
   map is_revoked (sessions db_relogin90) = [True, False] \<and>
   map is_revoked (sessions db_swept90) = [False] \<and>
   fst (authenticate E90 (day31 + 1000) None db_swept90 (Some (''Bearer '' @ alice_token)))
     = (Next alice_payload :: unit gate)"
  by code_simp

text \<open>
  Claim C8, as the code has it. The gate awaits \<open>updateLastUsed\<close> inside its \<open>try\<close> block.
  For a request whose token passes both checks: when the update goes through, the request
  proceeds to the handler with the identity attached; when the update throws, the request
  is answered with 500 and the handler is not called.
\<close>

theorem touch_is_awaited_by_gate:
  assumes "token \<noteq> []"
    and "jwt_verify E token now = Decoded d"
    and "isTokenValid E now (fault_at f 0) db token = Inr True"
  shows "(fault_at f 1 = None \<longrightarrow>
            authenticate E now f db (Some (''Bearer '' @ token))
              = (Next \<lparr>userId = userId d, email_auth = email_auth d, role_auth = role_auth d\<rparr>,
                 snd (updateLastUsed E now None db token))) \<and>
         (\<forall>m. fault_at f 1 = Some m \<longrightarrow>
            authenticate E now f db (Some (''Bearer '' @ token))
              = (Rejected (reply 500 ''Internal server error'' ''Token verification failed''), db))"
  using assms
  by (simp add: authenticate_def Let_def updateLastUsed_def)

text \<open>
  Witness for C8: Alice's request at 2000 is admitted and \<open>last_used_at\<close> moves from 1000
  to 2000.
\<close>

theorem touch_is_awaited_by_gate_witness:
  "authenticate E0 2000 None db_login (Some (''Bearer '' @ alice_token))
     = (Next alice_payload :: unit gate, snd (updateLastUsed E0 2000 None db_login alice_token)) \<and>
   map last_used_at (sessions db_login) = [1000] \<and>
   map last_used_at (sessions (snd (updateLastUsed E0 2000 None db_login alice_token))) = [2000]"
proof -
  have h1: "alice_token \<noteq> []" by (simp add: alice_token_def)
  have h2: "jwt_verify E0 alice_token 2000 = Decoded alice_payload" by code_simp
  have h3: "isTokenValid E0 2000 (fault_at None 0) db_login alice_token = Inr True" by code_simp
  have p: "\<lparr>userId = userId alice_payload, email_auth = email_auth alice_payload,
            role_auth = role_auth alice_payload\<rparr> = alice_payload" by simp
  have l: "map last_used_at (sessions db_login) = [1000] \<and>
     map last_used_at (sessions (snd (updateLastUsed E0 2000 None db_login alice_token))) = [2000]"
    by code_simp
  from touch_is_awaited_by_gate[OF h1 h2 h3, where ?'a = unit] l show ?thesis
    by (simp add: p)
qed

text \<open>
  Counterexample to C8 as stated: the same request is admitted when the update goes
  through and answered with 500 when the update loses its connection.
\<close>

theorem touch_failure_counterexample:
  "fst (authenticate E0 2000 None db_login (Some (''Bearer '' @ alice_token)))
     = (Next alice_payload :: unit gate) \<and>
   fst (authenticate E0 2000 (Some (1, ''Connection terminated unexpectedly'')) db_login
          (Some (''Bearer '' @ alice_token)))
     = (Rejected (reply 500 ''Internal server error'' ''Token verification failed'') :: unit gate)"
  by code_simp


text \<open>
  Claim C9 at the failing input. The route \<open>/logout\<close> has no gate in front of its
  handler: a request without an \<open>Authorization\<close> header, or with a string that is no
  token, is answered with 200 after a revocation that changes nothing.
\<close>

theorem logout_without_token_is_200:
  "POST_logout E0 2000 None db_login req0 = (reply 200 [] ''Logout successful'', db_login) \<and>
   POST_logout E0 2000 None db_login (req0\<lparr>h_authorization := Some ''Bearer not-a-token''\<rparr>)
     = (reply 200 [] ''Logout successful'', db_login) \<and>
   h_authorization req0 = None"
  by code_simp

text \<open>No request to \<open>/logout\<close> is answered with 401; a request with a recorded token
  does revoke it.\<close>

lemma logout_never_401:
  "status (fst (POST_logout E now f db req)) = (if fault_at f 0 = None then 200 else 500)"
  by (simp add: POST_logout_def AuthController_logout_def logout_def revokeToken_def reply_def Let_def
        split: option.splits)

lemma logout_revokes_presented_token:
  "h_authorization req = Some (''Bearer '' @ token) \<Longrightarrow>
   POST_logout E now None db req
     = (reply 200 [] ''Logout successful'', snd (revokeToken E now None db token))"
  by (simp add: POST_logout_def AuthController_logout_def logout_def revokeToken_def Let_def)


lemma admin_insert_refused:
  "insert_users [''email'', ''password_hash'', ''first_name'', ''last_name'', ''role'']
      [1, 2, 3, 4, 5] [a, b, c, d] db = (Inl (bind_message 4 5), db)"
  unfolding insert_users_def Let_def by (simp add: eval_nat_numeral)

lemma registerAdmin_throws:
  "\<exists>m. registerAdmin E now f db data req = (Inl m, db)"
  unfolding registerAdmin_def Let_def admin_insert_refused
  by (simp split: option.splits)

lemma registerAdmin_not_Inr: "registerAdmin E now f db data req \<noteq> (Inr r, db')"
  using registerAdmin_throws[of E now f db data req] by auto

lemma registerAdmin_Inl_db: "registerAdmin E now f db data req = (Inl m, db') \<Longrightarrow> db' = db"
  using registerAdmin_throws[of E now f db data req] by auto

lemma controller_registerAdmin_fails:
  "snd (AuthController_registerAdmin E now f db body req) = db \<and>
   (status (fst (AuthController_registerAdmin E now f db body req)) = 400 \<or>
    status (fst (AuthController_registerAdmin E now f db body req)) = 409 \<or>
    status (fst (AuthController_registerAdmin E now f db body req)) = 500)"
  by (auto simp: AuthController_registerAdmin_def validation_error_def reply_def Let_def
        registerAdmin_not_Inr
      split: sum.splits prod.splits dest: registerAdmin_Inl_db)

text \<open>
  Claim C10. \<open>registerAdmin\<close> always throws and leaves the database as it was: its
  \<open>INSERT\<close> names five parameters and is sent with four values. So every request to
  \<open>/register-admin\<close> is answered with an error status (400 from validation, 403 from the
  secret check, 409 or 500 from the service) and changes nothing.
\<close>

theorem registerAdmin_never_creates_a_user:
  "(\<exists>m. registerAdmin E now f db data req = (Inl m, db)) \<and>
   snd (POST_register_admin E now f db body req) = db \<and>
   (status (fst (POST_register_admin E now f db body req)) = 400 \<or>
    status (fst (POST_register_admin E now f db body req)) = 403 \<or>
    status (fst (POST_register_admin E now f db body req)) = 409 \<or>
    status (fst (POST_register_admin E now f db body req)) = 500)"
proof -
  have "snd (POST_register_admin E now f db body req) = db \<and>
   (status (fst (POST_register_admin E now f db body req)) = 400 \<or>
    status (fst (POST_register_admin E now f db body req)) = 403 \<or>
    status (fst (POST_register_admin E now f db body req)) = 409 \<or>
    status (fst (POST_register_admin E now f db body req)) = 500)"
  proof (cases "protectAdminRegistration E req body :: (public_user \<times> string) response + RegisterBody")
    case (Inl res)
    then have "status res = 403"
      by (auto simp: protectAdminRegistration_def reply_def split: option.splits if_splits)
    with Inl show ?thesis by (simp add: POST_register_admin_def)
  next
    case (Inr body')
    with controller_registerAdmin_fails[of E now f db body' req] show ?thesis
      by (auto simp: POST_register_admin_def)
  qed
  with registerAdmin_throws show ?thesis by blast
qed

text \<open>
  Witness for C10: a valid registration with the right secret is answered with 500 and
  the message of the refused bind.
\<close>

theorem registerAdmin_never_creates_a_user_witness:
  "POST_register_admin E0 2000 None db_alice admin_body req0
     = (reply 500 ''Internal server error''
          ''bind message supplies 4 parameters, but prepared statement \"\" requires 5'', db_alice)"
proof -
  have s: "fst (POST_register_admin E0 2000 None db_alice admin_body req0)
     = reply 500 ''Internal server error''
          ''bind message supplies 4 parameters, but prepared statement \"\" requires 5''"
    by code_simp
  from registerAdmin_never_creates_a_user[of E0 2000 None db_alice _ req0 admin_body]
  have "snd (POST_register_admin E0 2000 None db_alice admin_body req0) = db_alice" by blast
  with s show ?thesis by (metis prod.collapse)
qed

subsection \<open>Inactive accounts\<close>

lemma authenticate_ignores_users:
  "authenticate E now f (db\<lparr>users := us\<rparr>) h
     = (fst (authenticate E now f db h), (snd (authenticate E now f db h))\<lparr>users := us\<rparr>)"
  by (simp add: authenticate_def isTokenValid_def findSessionByToken_def updateLastUsed_def Let_def
        split: option.splits verified.splits sum.splits list.splits)

lemma login_inactive:
  assumes "filter (\<lambda>u. email u = l_email data) (users db) = u # rest" and "\<not> is_active u"
  shows "login E now f db data req =
           (case fault_at f 0 of Some m \<Rightarrow> (Inl m, db)
            | None \<Rightarrow> (Inl ''User account is inactive'', db))"
  using assms by (simp add: login_def split: option.splits)

text \<open>
  Claim C6, as the code has it. A login with valid input for an account whose
  \<open>is_active\<close> flag is false is answered with 401 (with 500 when the lookup of the user
  fails), and records no session. The gate, however, never reads the users table: its
  answer is the same whatever the users are, so a token issued before the account was
  deactivated is admitted as before.
\<close>

theorem inactive_user_cannot_log_in:
  assumes "validateAndSanitizeEmail (b_email body) = Inr e"
    and "b_password body = Some p" and "trim p \<noteq> []"
    and "filter (\<lambda>u. email u = e) (users db) = u # rest"
    and "\<not> is_active u"
  shows "snd (POST_login E now f db body req) = db \<and>
         (status (fst (POST_login E now f db body req)) = 401 \<or>
          status (fst (POST_login E now f db body req)) = 500) \<and>
         (fault_at f 0 = None \<longrightarrow>
            POST_login E now f db body req
              = (reply 401 ''Unauthorized'' ''User account is inactive'', db)) \<and>
         authenticate E now' f' (db\<lparr>users := us\<rparr>) h
           = (fst (authenticate E now' f' db h), (snd (authenticate E now' f' db h))\<lparr>users := us\<rparr>)"
proof -
  from assms(3) have p: "p \<noteq> []" "length (trim p) \<noteq> 0" by (auto simp: trim_def)
  have l: "login E now f db \<lparr>l_email = e, l_password = p\<rparr> req =
           (case fault_at f 0 of Some m \<Rightarrow> (Inl m, db)
            | None \<Rightarrow> (Inl ''User account is inactive'', db))"
    by (rule login_inactive[OF _ assms(5)]) (simp add: assms(4))
  have i: "includes_str ''User account is inactive'' ''inactive''" by simp
  have "snd (POST_login E now f db body req) = db \<and>
         (status (fst (POST_login E now f db body req)) = 401 \<or>
          status (fst (POST_login E now f db body req)) = 500) \<and>
         (fault_at f 0 = None \<longrightarrow>
            POST_login E now f db body req
              = (reply 401 ''Unauthorized'' ''User account is inactive'', db))"
    using p i
    by (cases "fault_at f 0")
       (simp_all add: POST_login_def AuthController_login_def assms(1,2) l reply_def Let_def)
  with authenticate_ignores_users show ?thesis by blast
qed

text \<open>
  Witness for C6: Alice, deactivated, tries to log in again at 2000.
\<close>

theorem inactive_user_cannot_log_in_witness:
  "map is_active (users db_deactivated) = [False] \<and>
   POST_login E0 2000 None db_deactivated alice_login req0
     = (reply 401 ''Unauthorized'' ''User account is inactive'', db_deactivated)"
proof -
  have h1: "validateAndSanitizeEmail (b_email alice_login) = Inr ''alice@example.com''"
    by code_simp
  have h2: "b_password alice_login = Some ''Password123''" by (simp add: alice_login_def)
  have h3: "trim ''Password123'' \<noteq> []" by code_simp
  have h4: "filter (\<lambda>u. email u = ''alice@example.com'') (users db_deactivated)
              = [alice\<lparr>is_active := False\<rparr>]"
    by code_simp
  have h5: "\<not> is_active (alice\<lparr>is_active := False\<rparr>)" by simp
  have a: "map is_active (users db_deactivated) = [False]" by code_simp
  have "fault_at None 0 = None \<longrightarrow>
      POST_login E0 2000 None db_deactivated alice_login req0
        = (reply 401 ''Unauthorized'' ''User account is inactive'', db_deactivated)"
    using inactive_user_cannot_log_in[OF h1 h2 h3 h4 h5, of E0 2000 None req0] by blast
  with a show ?thesis by simp
qed

text \<open>
  Counterexample to C6 as stated: Alice logs in at 1000, an administrator deactivates her
  account, and at 2000 the gate admits a request with her token.
\<close>

theorem inactive_user_admitted_counterexample:
  "data_json (fst (POST_login E0 1000 None db_alice alice_login req0))
     = Some (public alice, alice_token) \<and>
   map is_active (users db_deactivated) = [False] \<and>
   fst (authenticate E0 2000 None db_deactivated (Some (''Bearer '' @ alice_token)))
     = (Next alice_payload :: unit gate)"
  by code_simp

subsection \<open>Concurrent purchases never oversell\<close>




lemma proc_ok_procs [simp]: "proc_ok (w\<lparr>procs := X\<rparr>) q Q = proc_ok w q Q"
  by (simp add: proc_ok_def held_def split: pc.splits)

lemma bought_other_fields [simp]:
  "bought (w\<lparr>shared := d\<rparr>) i = bought w i"
  "bought (w\<lparr>row_lock := l\<rparr>) i = bought w i"
  by (simp_all add: bought_def)
















lemma exec_append: "exec now (xs @ ys) w = exec now ys (exec now xs w)"
  by (simp add: exec_def)

lemma exec_Cons: "exec now (a # xs) w = exec now xs (step now a w)"
  by (simp add: exec_def)

lemma exec_finished:
  assumes "procs w = [P]" and "at P = Returned r \<or> at P = Threw m"
  shows "exec now (replicate n (0, None)) w = w"
proof (induction n)
  case 0
  show ?case by (simp add: exec_def)
next
  case (Suc n)
  from assms have "step now (0, None) w = w" by (auto simp: step_def)
  with Suc show ?case by (simp add: exec_Cons)
qed

lemma solo_inserts:
  assumes "procs w = [P]" and "at P = AtInsert ev i" and "i \<le> k" and "k \<le> p_quantity P"
    and "list_all (\<lambda>j. tickets_violation (shared w)
                          (ticket_row now ev (p_eventId P) (p_userId P) j) = None) [i..k - 1]"
  shows "exec now (replicate (nat (k - i)) (0, None)) w
         = w\<lparr>procs := [P\<lparr>at := AtInsert ev k,
                           new_tickets := new_tickets P
                             @ map (ticket_row now ev (p_eventId P) (p_userId P))
                                 [i..k - 1]\<rparr>]\<rparr>"
  using assms
proof (induction "nat (k - i)" arbitrary: w P i)
  case 0
  then have "i = k" by simp
  with 0 show ?case by (simp add: exec_def)
next
  case (Suc n)
  then have lt: "i < k" by simp
  let ?P = "P\<lparr>at := AtInsert ev (i + 1),
               new_tickets := new_tickets P @ [ticket_row now ev (p_eventId P) (p_userId P) i]\<rparr>"
  let ?w = "w\<lparr>procs := [?P]\<rparr>"
  have up: "[i..k - 1] = i # [i + 1..k - 1]" using lt by (simp add: upto_rec1)
  from Suc.prems(5) have nv: "tickets_violation (shared w)
      (ticket_row now ev (p_eventId P) (p_userId P) i) = None"
    and rest: "list_all (\<lambda>j. tickets_violation (shared ?w)
                          (ticket_row now ev (p_eventId ?P) (p_userId ?P) j) = None) [i + 1..k - 1]"
    by (simp_all add: up)
  have st: "step now (0, None) w = ?w"
    using Suc.prems(1,2,4) lt nv by (simp add: step_def Let_def)
  have n: "n = nat (k - (i + 1))" using Suc.hyps(2) by simp
  have "exec now (replicate (nat (k - (i + 1))) (0, None)) ?w
        = ?w\<lparr>procs := [?P\<lparr>at := AtInsert ev k,
                           new_tickets := new_tickets ?P
                             @ map (ticket_row now ev (p_eventId ?P) (p_userId ?P))
                                 [i + 1..k - 1]\<rparr>]\<rparr>"
    by (rule Suc.hyps(1)[OF n _ _ _ _ rest]) (use lt Suc.prems(4) in simp_all)
  moreover have "nat (k - i) = Suc (nat (k - (i + 1)))"
    using lt by simp
  ultimately show ?case
    using st by (simp add: exec_Cons up)
qed

lemma solo_failure:
  assumes "procs w = [P]" and "at P = AtRollback m"
  shows "shared (exec now (replicate (Suc n) (0, None)) w) = shared w \<and>
         map at (procs (exec now (replicate (Suc n) (0, None)) w)) = [Threw m]"
proof -
  let ?w = "w\<lparr>row_lock := unlock 0 (row_lock w),
              procs := [P\<lparr>at := Threw m, new_available := None, new_tickets := []\<rparr>]\<rparr>"
  have "step now (0, None) w = ?w" using assms by (simp add: step_def Let_def)
  moreover have "exec now (replicate n (0, None)) ?w = ?w"
    by (rule exec_finished[where m = m and r = None
          and P = "P\<lparr>at := Threw m, new_available := None, new_tickets := []\<rparr>"]) simp_all
  ultimately show ?thesis by (simp add: exec_Cons)
qed

lemma first_refused:
  assumes "\<not> list_all (\<lambda>j. V j = (None :: string option)) [0..qty - 1]"
  shows "\<exists>j m. 0 \<le> j \<and> j < qty \<and> V j = Some m \<and> list_all (\<lambda>k. V k = None) [0..j - 1]"
proof -
  from assms obtain j where j: "0 \<le> j" "j < qty" "V j \<noteq> None"
    by (auto simp: list_all_iff)
  then have "\<exists>n. int n < qty \<and> V (int n) \<noteq> None"
    by (intro exI[of _ "nat j"]) simp
  then obtain n where n: "int n < qty \<and> V (int n) \<noteq> None"
    and least: "\<forall>k<n. \<not> (int k < qty \<and> V (int k) \<noteq> None)"
    using exists_least_iff[of "\<lambda>n. int n < qty \<and> V (int n) \<noteq> None"] by blast
  from n obtain m where m: "V (int n) = Some m" by auto
  have "V k = None" if k: "0 \<le> k" "k < int n" for k
  proof -
    from k have "nat k < n" by simp
    with least have "\<not> (int (nat k) < qty \<and> V (int (nat k)) \<noteq> None)" by blast
    moreover from k n have "k < qty" by simp
    ultimately show ?thesis using k by simp
  qed
  then have "list_all (\<lambda>k. V k = None) [0..int n - 1]"
    by (simp add: list_all_iff)
  with n m show ?thesis by (intro exI[of _ "int n"] exI[of _ m]) simp
qed

text \<open>
  A request that runs alone, for as many steps as it has queries, does what
  \<open>purchaseTickets\<close> does: the same database and the same result.
\<close>

lemma solo_run_agrees_with_purchaseTickets:
  assumes "1 \<le> qty" and "list_all events_check (events db)"
  shows "shared (exec now (replicate (nat qty + 5) (0, None)) (start db [(eid, qty, uid)]))
           = committed (snd (purchaseTickets None now db eid qty uid)) \<and>
         map at (procs (exec now (replicate (nat qty + 5) (0, None)) (start db [(eid, qty, uid)])))
           = [case fst (purchaseTickets None now db eid qty uid) of
                Inl m \<Rightarrow> Threw m | Inr r \<Rightarrow> Returned r]"
proof -
  let ?P0 = "start_proc (eid, qty, uid)"
  let ?w0 = "start db [(eid, qty, uid)]"
  let ?n = "nat qty + 5"
  let ?x = "(0::nat, None::string option)"
  have n: "replicate ?n ?x = ?x # ?x # replicate (Suc (nat qty + 2)) ?x"
    by (simp add: numeral_eq_Suc)
  let ?w1 = "?w0\<lparr>procs := [?P0\<lparr>at := AtSelect\<rparr>]\<rparr>"
  have s1: "step now (0, None) ?w0 = ?w1"
    by (simp add: step_def start_def start_proc_def Let_def)
  have fail: "step now (0, None) ?w1 = ?w1\<lparr>row_lock := l, procs := [?P0\<lparr>at := AtRollback m\<rparr>]\<rparr> \<Longrightarrow>
      purchaseTickets None now db eid qty uid = (Inl m, connect db) \<Longrightarrow> ?thesis" for m l
    using solo_failure[of "?w1\<lparr>row_lock := l, procs := [?P0\<lparr>at := AtRollback m\<rparr>]\<rparr>"
        "?P0\<lparr>at := AtRollback m\<rparr>" m now "nat qty + 2"] s1
    by (simp add: n exec_Cons start_def connect_def)
  show ?thesis
  proof (cases "select_event db eid")
    case Nil
    show ?thesis
    proof (rule fail)
      show "step now (0, None) ?w1
          = ?w1\<lparr>row_lock := (\<lambda>i. None), procs := [?P0\<lparr>at := AtRollback ''Event not found''\<rparr>]\<rparr>"
        using Nil by (simp add: step_def start_def start_proc_def Let_def)
      show "purchaseTickets None now db eid qty uid = (Inl ''Event not found'', connect db)"
        by (rule missing_event_throws[OF Nil])
    qed
  next
    case (Cons ev rest)
    then have ge: "getEventById db eid = Some ev" by (simp add: getEventById_def)
    let ?l = "(\<lambda>i. None)(eid := Some (0::nat))"
    show ?thesis
    proof (cases "available_tickets ev < qty")
      case True
      let ?m = "''Not enough tickets available. Available: '' @ show_int (available_tickets ev)
                  @ '', Requested: '' @ show_int qty"
      show ?thesis
      proof (rule fail)
        show "step now (0, None) ?w1
            = ?w1\<lparr>row_lock := ?l, procs := [?P0\<lparr>at := AtRollback ?m\<rparr>]\<rparr>"
          using Cons True by (simp add: step_def start_def start_proc_def Let_def)
        show "purchaseTickets None now db eid qty uid = (Inl ?m, connect db)"
          by (rule capacity_throws[OF Cons True])
      qed
    next
      case enough: False
      then have le: "qty \<le> available_tickets ev" by simp
      show ?thesis
      proof (cases "status_event ev \<noteq> ''upcoming'' \<and> status_event ev \<noteq> ''live''")
        case True
        let ?m = "''Cannot purchase tickets for '' @ status_event ev @ '' event''"
        show ?thesis
        proof (rule fail)
          show "step now (0, None) ?w1
              = ?w1\<lparr>row_lock := ?l, procs := [?P0\<lparr>at := AtRollback ?m\<rparr>]\<rparr>"
            using Cons enough True by (simp add: step_def start_def start_proc_def Let_def)
          show "purchaseTickets None now db eid qty uid = (Inl ?m, connect db)"
            using wrong_status_throws[OF Cons le] True by simp
        qed
      next
        case False
        then have st: "status_event ev = ''upcoming'' \<or> status_event ev = ''live''" by auto
        let ?V = "\<lambda>j. tickets_violation db (ticket_row now ev eid uid j)"
        let ?ev' = "ev\<lparr>available_tickets := available_tickets ev - qty\<rparr>"
        let ?new = "map (ticket_row now ev eid uid) [0..qty - 1]"
        let ?db' = "db\<lparr>events := map (\<lambda>e. if id_event e = eid then e\<lparr>available_tickets :=
                          available_tickets ev - qty\<rparr> else e) (events db),
                        tickets := tickets db @ ?new\<rparr>"
        let ?P2 = "?P0\<lparr>at := AtUpdate ev\<rparr>"
        let ?w2 = "?w1\<lparr>row_lock := ?l, procs := [?P2]\<rparr>"
        have s2: "step now (0, None) ?w1 = ?w2"
          using Cons enough False by (simp add: step_def start_def start_proc_def Let_def)
        let ?P3 = "?P0\<lparr>at := AtInsert ev 0, new_available := Some (available_tickets ev - qty)\<rparr>"
        let ?w3 = "?w2\<lparr>procs := [?P3]\<rparr>"
        have s3: "step now (0, None) ?w2 = ?w3"
          by (simp add: step_def start_def start_proc_def Let_def)
        have to3: "exec now (replicate ?n ?x) ?w0
            = exec now (replicate (nat qty + 2) ?x) ?w3"
          by (simp only: n replicate_Suc exec_Cons s1 s2 s3)
        show ?thesis
        proof (cases "list_all (\<lambda>j. ?V j = None) [0..qty - 1]")
          case accepted: True
          have seq: "purchaseTickets None now db eid qty uid = (Inr (Some ?ev'), connect ?db')"
            by (rule purchase_success[OF ge assms(1) le st assms(2) accepted])
          let ?P4 = "?P3\<lparr>at := AtInsert ev qty, new_tickets := ?new\<rparr>"
          let ?w4 = "?w3\<lparr>procs := [?P4]\<rparr>"
          have s4: "exec now (replicate (nat qty) ?x) ?w3 = ?w4"
            using solo_inserts[of ?w3 ?P3 ev 0 qty now] assms(1) accepted
            by (simp add: start_def start_proc_def)
          let ?P5 = "?P4\<lparr>at := AtRefetch, new_available := None, new_tickets := [],
                         has_committed := True\<rparr>"
          let ?w5 = "?w4\<lparr>shared := ?db', row_lock := unlock 0 ?l, procs := [?P5]\<rparr>"
          have s5: "step now (0, None) ?w4 = ?w5"
            by (simp add: step_def start_def start_proc_def Let_def publish_def)
          have g: "getEventById ?db' eid = Some ?ev'"
            by (rule lookup_after_purchase[OF ge])
          let ?w6 = "?w5\<lparr>procs := [?P5\<lparr>at := Returned (Some ?ev')\<rparr>]\<rparr>"
          have s6: "step now (0, None) ?w5 = ?w6"
            using g by (simp add: step_def start_def start_proc_def Let_def)
          have r: "replicate (nat qty + 2) ?x = replicate (nat qty) ?x @ [?x, ?x]"
            by (simp add: replicate_add[symmetric] numeral_2_eq_2 flip: replicate_append_same)
          have "exec now (replicate ?n ?x) ?w0 = exec now [?x, ?x] ?w4"
            by (simp only: to3 r exec_append s4)
          also have "\<dots> = ?w6"
            by (simp only: exec_Cons s5 s6) (simp add: exec_def)
          finally show ?thesis using seq by (simp add: start_def connect_def)
        next
          case False
          from first_refused[OF this] obtain j m where j: "0 \<le> j" "j < qty"
            and m: "?V j = Some m" and first: "list_all (\<lambda>k. ?V k = None) [0..j - 1]"
            by blast
          have seq: "purchaseTickets None now db eid qty uid = (Inl m, connect db)"
            by (rule purchase_refused[OF ge le st assms(2) j first m])
          let ?P4 = "?P3\<lparr>at := AtInsert ev j,
                         new_tickets := map (ticket_row now ev eid uid) [0..j - 1]\<rparr>"
          let ?w4 = "?w3\<lparr>procs := [?P4]\<rparr>"
          have s4: "exec now (replicate (nat j) ?x) ?w3 = ?w4"
            using solo_inserts[of ?w3 ?P3 ev 0 j now] j first
            by (simp add: start_def start_proc_def)
          let ?w5 = "?w4\<lparr>procs := [?P4\<lparr>at := AtRollback m\<rparr>]\<rparr>"
          have s5: "step now (0, None) ?w4 = ?w5"
            using j m by (simp add: step_def start_def start_proc_def Let_def)
          have r: "replicate (nat qty + 2) ?x
              = replicate (nat j) ?x @ ?x # replicate (Suc (nat (qty - j))) ?x"
          proof -
            have "nat qty + 2 = nat j + Suc (Suc (nat (qty - j)))" using j by simp
            then show ?thesis
              by (simp only: replicate_add replicate_Suc)
          qed
          have "exec now (replicate ?n ?x) ?w0
              = exec now (replicate (Suc (nat (qty - j))) ?x) ?w5"
            by (simp only: to3 r exec_append exec_Cons s4 s5)
          with solo_failure[of ?w5 "?P4\<lparr>at := AtRollback m\<rparr>" m now "nat (qty - j)"] seq
          show ?thesis by (simp add: start_def connect_def)
        qed
      qed
    qed
  qed
qed

end
